theory Spec2Isabelle
  imports Complex_Main "HOL-Library.Word"
begin

section \<open>Numbers, strings and identifiers\<close>

text \<open>
  The program is TypeScript. Its \<open>number\<close> values are modelled as \<open>real\<close>: every
  property below is about comparisons, \<open>Math.min\<close>, \<open>Math.max\<close> and products of
  finite values, and none depends on rounding. Where the source divides, the model says
  what happens at a zero divisor. Strings are \<open>string\<close>; the enumerations of the
  source are plain strings there (\<open>noiseLevel: string\<close>, \<open>gesture: string\<close>) and stay so.
\<close>

section \<open>Voice settings store (Home page)\<close>

record voice_settings =
  voice :: string
  rate :: real
  pitch :: real
  volume :: real
  emotion :: string
  style :: string

record environment_settings =
  noiseLevel :: string
  adaptToNoise :: bool

text \<open>\<open>Partial<typeof voiceSettings>\<close>: every key may be absent.\<close>

record partial_voice_settings =
  p_voice :: "string option"
  p_rate :: "real option"
  p_pitch :: "real option"
  p_volume :: "real option"
  p_emotion :: "string option"
  p_style :: "string option"

record partial_environment_settings =
  p_noiseLevel :: "string option"
  p_adaptToNoise :: "bool option"

definition no_change :: partial_voice_settings where
  "no_change = \<lparr>p_voice = None, p_rate = None, p_pitch = None, p_volume = None,
     p_emotion = None, p_style = None\<rparr>"

text \<open>The initial \<open>useState\<close> values of \<open>Home\<close>.\<close>

definition default_voiceSettings :: voice_settings where
  "default_voiceSettings = \<lparr>voice = ''en-US-Neural2-F'', rate = 1.0, pitch = 1.0,
     volume = 1.0, emotion = ''neutral'', style = ''casual''\<rparr>"

definition default_environmentSettings :: environment_settings where
  "default_environmentSettings = \<lparr>noiseLevel = ''normal'', adaptToNoise = True\<rparr>"

text \<open>\<open>setVoiceSettings((prev) => ({ ...prev, ...newSettings }))\<close>\<close>

definition handleVoiceSettingsChange ::
  "partial_voice_settings \<Rightarrow> voice_settings \<Rightarrow> voice_settings" where
  "handleVoiceSettingsChange newSettings prev =
     \<lparr>voice = (case p_voice newSettings of None \<Rightarrow> voice prev | Some v \<Rightarrow> v),
      rate = (case p_rate newSettings of None \<Rightarrow> rate prev | Some v \<Rightarrow> v),
      pitch = (case p_pitch newSettings of None \<Rightarrow> pitch prev | Some v \<Rightarrow> v),
      volume = (case p_volume newSettings of None \<Rightarrow> volume prev | Some v \<Rightarrow> v),
      emotion = (case p_emotion newSettings of None \<Rightarrow> emotion prev | Some v \<Rightarrow> v),
      style = (case p_style newSettings of None \<Rightarrow> style prev | Some v \<Rightarrow> v)\<rparr>"

definition handleEnvironmentChange ::
  "partial_environment_settings \<Rightarrow> environment_settings \<Rightarrow> environment_settings" where
  "handleEnvironmentChange newSettings prev =
     \<lparr>noiseLevel = (case p_noiseLevel newSettings of None \<Rightarrow> noiseLevel prev | Some v \<Rightarrow> v),
      adaptToNoise = (case p_adaptToNoise newSettings of None \<Rightarrow> adaptToNoise prev | Some v \<Rightarrow> v)\<rparr>"

definition handleEmotionDetected :: "string \<Rightarrow> voice_settings \<Rightarrow> voice_settings" where
  "handleEmotionDetected e prev = prev\<lparr>emotion := e\<rparr>"

text \<open>The \<open>onGestureDetected\<close> handler that \<open>Home\<close> passes to the gesture controller.\<close>

definition onGestureDetected :: "string \<Rightarrow> voice_settings \<Rightarrow> voice_settings" where
  "onGestureDetected gesture prev =
     (if gesture = ''volume-up'' then prev\<lparr>volume := min 2.0 (volume prev + 0.1)\<rparr>
      else if gesture = ''volume-down'' then prev\<lparr>volume := max 0.1 (volume prev - 0.1)\<rparr>
      else if gesture = ''speed-up'' then prev\<lparr>rate := min 2.0 (rate prev + 0.1)\<rparr>
      else if gesture = ''speed-down'' then prev\<lparr>rate := max 0.5 (rate prev - 0.1)\<rparr>
      else prev)"

subsection \<open>Voice customizer controls\<close>

text \<open>
  Each control of \<open>VoiceCustomizer\<close> calls \<open>onChange\<close> with a one-key partial object.
\<close>

datatype customizer_control =
  VoiceSelect string
| RateSlider real
| PitchSlider real
| VolumeSlider real
| EmotionRadio string
| StyleRadio string

fun customizer_onChange :: "customizer_control \<Rightarrow> partial_voice_settings" where
  "customizer_onChange (VoiceSelect v) = no_change\<lparr>p_voice := Some v\<rparr>"
| "customizer_onChange (RateSlider v) = no_change\<lparr>p_rate := Some v\<rparr>"
| "customizer_onChange (PitchSlider v) = no_change\<lparr>p_pitch := Some v\<rparr>"
| "customizer_onChange (VolumeSlider v) = no_change\<lparr>p_volume := Some v\<rparr>"
| "customizer_onChange (EmotionRadio v) = no_change\<lparr>p_emotion := Some v\<rparr>"
| "customizer_onChange (StyleRadio v) = no_change\<lparr>p_style := Some v\<rparr>"

text \<open>
  Modelled from the spec: the \<open>Slider\<close> component (\<open>components/ui/slider\<close>) is not among
  the sources. The data model gives the manual controls the ranges of their \<open>min\<close> and
  \<open>max\<close> props, so a slider is taken to report only values \<open>v\<close> with \<open>min \<le> v \<le> max\<close>.
\<close>

definition slider_emits :: "real \<Rightarrow> real \<Rightarrow> real \<Rightarrow> bool" where
  "slider_emits mn mx v \<longleftrightarrow> mn \<le> v \<and> v \<le> mx"

text \<open>The \<open>min\<close> and \<open>max\<close> props of the three sliders, as written in the source.\<close>

fun control_emits :: "customizer_control \<Rightarrow> bool" where
  "control_emits (RateSlider v) = slider_emits 0.5 2 v"
| "control_emits (PitchSlider v) = slider_emits 0.5 2 v"
| "control_emits (VolumeSlider v) = slider_emits 0.1 1 v"
| "control_emits _ = True"

text \<open>One update of the store: a manual control, a detected emotion or a gesture.\<close>

datatype settings_update =
  Manual customizer_control
| EmotionDetected string
| Gesture string

fun apply_update :: "voice_settings \<Rightarrow> settings_update \<Rightarrow> voice_settings" where
  "apply_update vs (Manual c) = handleVoiceSettingsChange (customizer_onChange c) vs"
| "apply_update vs (EmotionDetected e) = handleEmotionDetected e vs"
| "apply_update vs (Gesture g) = onGestureDetected g vs"

fun update_emits :: "settings_update \<Rightarrow> bool" where
  "update_emits (Manual c) = control_emits c"
| "update_emits _ = True"

definition apply_updates :: "voice_settings \<Rightarrow> settings_update list \<Rightarrow> voice_settings" where
  "apply_updates vs us = foldl apply_update vs us"

definition in_ranges :: "voice_settings \<Rightarrow> bool" where
  "in_ranges vs \<longleftrightarrow>
     0.5 \<le> rate vs \<and> rate vs \<le> 2.0 \<and> 0.5 \<le> pitch vs \<and> pitch vs \<le> 2.0 \<and>
     0.1 \<le> volume vs \<and> volume vs \<le> 2.0"

section \<open>Noise monitor\<close>

text \<open>
  \<open>updateAnalysis\<close> reads the analyser's byte frequency data into a \<open>Uint8Array\<close> of
  \<open>bufferLength = frequencyBinCount\<close> entries (the source sets \<open>fftSize = 256\<close>, and an
  analyser has half as many bins), sums the entries in a loop over the indices, scales
  and clamps the average, and classifies the result. The array is a function from
  indices to bytes; only the indices below \<open>bufferLength\<close> are read.
\<close>

definition fftSize :: nat where
  "fftSize = 256"

definition frequencyBinCount :: nat where
  "frequencyBinCount = fftSize div 2"

definition bufferLength :: nat where
  "bufferLength = frequencyBinCount"

definition sum_loop :: "(nat \<Rightarrow> 8 word) \<Rightarrow> nat" where
  "sum_loop dataArray = foldl (\<lambda>sum i. sum + unat (dataArray i)) 0 [0..<bufferLength]"

definition average_of :: "(nat \<Rightarrow> 8 word) \<Rightarrow> real" where
  "average_of dataArray = real (sum_loop dataArray) / real bufferLength"

definition normalizedValue :: "real \<Rightarrow> real" where
  "normalizedValue average = min 100 (max 0 (average * 1.5))"

definition noise_level_of :: "real \<Rightarrow> string" where
  "noise_level_of v = (if v < 20 then ''low'' else if v > 60 then ''high'' else ''normal'')"

text \<open>
  One sampling tick: the new \<open>noiseValue\<close>, the level that the tick computes (the local
  \<open>noiseLevel\<close>), and the \<open>onChange\<close> call, which is made only when that level differs
  from \<open>settings.noiseLevel\<close>. Here \<open>settings\<close> is the prop of the render in which
  \<open>analyzeAudio\<close> was called: \<open>updateAnalysis\<close> is created once and re-schedules itself, so
  every tick of one listening session compares with the same captured settings.
\<close>

definition updateAnalysis ::
  "environment_settings \<Rightarrow> (nat \<Rightarrow> 8 word) \<Rightarrow>
   real \<times> string \<times> partial_environment_settings option" where
  "updateAnalysis settings dataArray =
     (let average = average_of dataArray;
          v = normalizedValue average;
          level = noise_level_of v
      in (v, level,
          if level \<noteq> noiseLevel settings
          then Some \<lparr>p_noiseLevel = Some level, p_adaptToNoise = None\<rparr> else None))"

text \<open>
  The state of \<open>Home\<close> after it has handled the \<open>onChange\<close> call of a tick, if any: the
  tick compares with the settings \<open>captured\<close> by its closure, and \<open>Home\<close> merges into its
  \<open>current\<close> state.
\<close>

definition after_tick ::
  "environment_settings \<Rightarrow> environment_settings \<Rightarrow> (nat \<Rightarrow> 8 word) \<Rightarrow> environment_settings" where
  "after_tick captured current dataArray =
     (case snd (snd (updateAnalysis captured dataArray)) of
        None \<Rightarrow> current
      | Some newSettings \<Rightarrow> handleEnvironmentChange newSettings current)"

section \<open>Speech synthesis service\<close>

text \<open>
  \<open>window.speechSynthesis\<close> is a service of the platform. The model keeps what the
  player can observe of it and what the player asks of it: the voice catalogue that
  \<open>getVoices()\<close> returns, and the calls made, in order. Utterances are objects that the
  player and the service share, so they live in a store and are named by address.
\<close>

record speech_voice =
  voice_name :: string
  voice_lang :: string

record utterance =
  utt_text :: string
  utt_rate :: real
  utt_pitch :: real
  utt_volume :: real
  utt_voice :: "speech_voice option"

text \<open>
  \<open>new SpeechSynthesisUtterance(text)\<close>: rate, pitch and volume start at 1, no voice.
  The fields hold what the player assigns to them; what the platform makes of a value
  when it renders the audio is outside the program.
\<close>

definition new_utterance :: "string \<Rightarrow> utterance" where
  "new_utterance t = \<lparr>utt_text = t, utt_rate = 1, utt_pitch = 1, utt_volume = 1, utt_voice = None\<rparr>"

datatype synth_call = Cancel | GetVoices | Speak nat | Pause | Resume

record speech_synthesis =
  voices :: "speech_voice list"
  calls :: "synth_call list"

definition call :: "synth_call \<Rightarrow> speech_synthesis \<Rightarrow> speech_synthesis" where
  "call c sy = sy\<lparr>calls := calls sy @ [c]\<rparr>"

text \<open>
  The utterances handed to the service and not cancelled since: \<open>cancel()\<close> removes every
  utterance from the service's queue, \<open>speak(u)\<close> appends one.
\<close>

definition queued :: "synth_call list \<Rightarrow> nat list" where
  "queued cs = foldl (\<lambda>q c. case c of Cancel \<Rightarrow> [] | Speak a \<Rightarrow> q @ [a] | _ \<Rightarrow> q) [] cs"

section \<open>Playback controller (TTSPlayer)\<close>

text \<open>
  An interval callback holds the variables its closure captured. \<open>StartTick\<close> is the one
  that \<open>onstart\<close> installs (text length and the utterance's rate), \<open>ResumeTick\<close> the one
  of \<open>resume\<close> (remaining progress, text length and the rate of the voice settings).
  A timeout callback likewise: \<open>InterruptionTimeout\<close> is the outer callback of
  \<open>toggleListening\<close> with the \<open>isPlaying\<close> of the render that created it, and
  \<open>ProcessingTimeout\<close> the inner one.
\<close>

datatype interval_callback = StartTick nat real | ResumeTick real nat real

datatype timeout_callback = InterruptionTimeout bool | ProcessingTimeout

text \<open>
  The state of one mounted player: its props, its \<open>useState\<close> cells, its two refs, the
  store of utterance objects, the speech service (\<open>None\<close> when \<open>window.speechSynthesis\<close>
  is missing) and the timers of the platform. Timer handles are the positive integers
  the platform hands out, so a stored handle is always truthy; they are numbered by
  \<open>nat\<close> here. A pending timeout is its delay in milliseconds and its callback.
\<close>

record tts_player =
  voiceSettings :: voice_settings
  environmentSettings :: environment_settings
  text' :: string
  isPlaying :: bool
  progress :: real
  isMuted :: bool
  isListening :: bool
  interruptionDetected :: bool
  speechSynthRef :: "nat option"
  progressIntervalRef :: "nat option"
  utterances :: "nat \<Rightarrow> utterance option"
  next_utterance :: nat
  speechSynthesis :: "speech_synthesis option"
  intervals :: "nat \<Rightarrow> interval_callback option"
  next_handle :: nat
  timeouts :: "(nat \<times> timeout_callback) list"

definition initial_text :: string where
  "initial_text = ''Hello! This is an advanced TTS system with real-time interaction capabilities. Try interrupting me by clicking the microphone button while I'' @ [CHR 0x27] @ ''m speaking.''"

text \<open>
  The player as first rendered with props \<open>vs\<close> and \<open>env\<close>, before its mount effect.
\<close>

definition initial_player ::
  "voice_settings \<Rightarrow> environment_settings \<Rightarrow> speech_synthesis option \<Rightarrow> tts_player" where
  "initial_player vs env synth =
     \<lparr>voiceSettings = vs, environmentSettings = env, text' = initial_text,
      isPlaying = False, progress = 0, isMuted = False, isListening = False,
      interruptionDetected = False, speechSynthRef = None, progressIntervalRef = None,
      utterances = Map.empty, next_utterance = 0, speechSynthesis = synth,
      intervals = Map.empty, next_handle = 0, timeouts = []\<rparr>"

subsection \<open>Timers\<close>

text \<open>\<open>if (progressIntervalRef.current) clearInterval(progressIntervalRef.current)\<close>\<close>

definition clear_progress_interval :: "tts_player \<Rightarrow> tts_player" where
  "clear_progress_interval s =
     (case progressIntervalRef s of
        None \<Rightarrow> s
      | Some h \<Rightarrow> s\<lparr>intervals := (intervals s)(h := None)\<rparr>)"

text \<open>\<open>progressIntervalRef.current = setInterval(cb, 50)\<close>\<close>

definition set_progress_interval :: "interval_callback \<Rightarrow> tts_player \<Rightarrow> tts_player" where
  "set_progress_interval cb s =
     s\<lparr>intervals := (intervals s)(next_handle s \<mapsto> cb),
       progressIntervalRef := Some (next_handle s),
       next_handle := Suc (next_handle s)\<rparr>"

definition set_timeout :: "nat \<Rightarrow> timeout_callback \<Rightarrow> tts_player \<Rightarrow> tts_player" where
  "set_timeout delay cb s = s\<lparr>timeouts := timeouts s @ [(delay, cb)]\<rparr>"

subsection \<open>speak\<close>

text \<open>
  \<open>voices.find((v) => v.name === voiceSettings.voice) || voices[0]\<close>: a voice object is
  truthy, so the result is missing exactly when the catalogue is empty.
\<close>

definition selectedVoice :: "speech_voice list \<Rightarrow> string \<Rightarrow> speech_voice option" where
  "selectedVoice vcs wanted =
     (case find (\<lambda>v. voice_name v = wanted) vcs of
        Some v \<Rightarrow> Some v
      | None \<Rightarrow> (case vcs of [] \<Rightarrow> None | v # _ \<Rightarrow> Some v))"

definition speak :: "tts_player \<Rightarrow> tts_player" where
  "speak s =
     (case speechSynthesis s of
        None \<Rightarrow> s
      | Some synth \<Rightarrow>
          let synth1 = call Cancel synth;
              u0 = new_utterance (text' s);
              u1 = u0\<lparr>utt_rate := rate (voiceSettings s)\<rparr>;
              u2 = u1\<lparr>utt_pitch := pitch (voiceSettings s)\<rparr>;
              u3 = u2\<lparr>utt_volume := (if isMuted s then 0 else volume (voiceSettings s))\<rparr>;
              synth2 = call GetVoices synth1;
              u4 = (case selectedVoice (voices synth2) (voice (voiceSettings s)) of
                      Some v \<Rightarrow> u3\<lparr>utt_voice := Some v\<rparr>
                    | None \<Rightarrow> u3);
              u5 = (if adaptToNoise (environmentSettings s) \<and>
                       noiseLevel (environmentSettings s) = ''high''
                    then u4\<lparr>utt_volume := min 1 (utt_volume u4 * 1.5)\<rparr>
                    else u4);
              a = next_utterance s
          in s\<lparr>utterances := (utterances s)(a \<mapsto> u5),
               next_utterance := Suc a,
               speechSynthRef := Some a,
               speechSynthesis := Some (call (Speak a) synth2)\<rparr>)"

text \<open>
  The utterance of the latest \<open>speak\<close> call made to the service, as it is in the store.
\<close>

definition spoken :: "tts_player \<Rightarrow> utterance option" where
  "spoken s =
     (case speechSynthesis s of
        None \<Rightarrow> None
      | Some synth \<Rightarrow>
          (case rev (calls synth) of
             Speak a # _ \<Rightarrow> utterances s a
           | _ \<Rightarrow> None))"

subsection \<open>Lifecycle callbacks of an utterance\<close>

text \<open>
  The handlers that \<open>speak\<close> attaches to the utterance at address \<open>a\<close>; the service calls
  them. Their closure holds the \<open>text\<close> of the render that called \<open>speak\<close>, which is
  the text the utterance was built from, and the utterance itself.
\<close>

definition onstart :: "nat \<Rightarrow> tts_player \<Rightarrow> tts_player" where
  "onstart a s =
     (case utterances s a of
        None \<Rightarrow> s
      | Some u \<Rightarrow>
          set_progress_interval (StartTick (length (utt_text u)) (utt_rate u))
            (clear_progress_interval (s\<lparr>isPlaying := True, progress := 0\<rparr>)))"

definition onend :: "tts_player \<Rightarrow> tts_player" where
  "onend s = clear_progress_interval (s\<lparr>isPlaying := False, progress := 100\<rparr>)"

definition onerror :: "tts_player \<Rightarrow> tts_player" where
  "onerror s = clear_progress_interval (s\<lparr>isPlaying := False\<rparr>)"

subsection \<open>The progress ticker\<close>

text \<open>
  The duration estimate of a ticker, in ticks. It is given only where the source's
  arithmetic stays finite and not negative: for a positive rate and a remaining
  progress that is not negative.
\<close>

fun duration_of :: "interval_callback \<Rightarrow> real option" where
  "duration_of (StartTick len r) =
     (if 0 < r then Some ((real len / r) * 50) else None)"
| "duration_of (ResumeTick remainingProgress len r) =
     (if 0 < r \<and> 0 \<le> remainingProgress
      then Some ((remainingProgress / 100) * ((real len / r) * 50)) else None)"

text \<open>
  \<open>setProgress((prev) => { const newProgress = prev + 100 / duration; return newProgress
  > 100 ? 100 : newProgress })\<close>. A duration of zero makes \<open>100 / duration\<close> infinite in
  the source, hence \<open>newProgress > 100\<close>.
\<close>

definition tick :: "interval_callback \<Rightarrow> tts_player \<Rightarrow> tts_player option" where
  "tick cb s =
     (case duration_of cb of
        None \<Rightarrow> None
      | Some duration \<Rightarrow>
          if duration = 0 then Some (s\<lparr>progress := 100\<rparr>)
          else let newProgress = progress s + 100 / duration
               in Some (s\<lparr>progress := (if newProgress > 100 then 100 else newProgress)\<rparr>))"

subsection \<open>pause, resume, stop\<close>

definition pause :: "tts_player \<Rightarrow> tts_player" where
  "pause s =
     (case speechSynthesis s of
        None \<Rightarrow> s
      | Some synth \<Rightarrow>
          clear_progress_interval
            (s\<lparr>speechSynthesis := Some (call Pause synth), isPlaying := False\<rparr>))"

definition resume :: "tts_player \<Rightarrow> tts_player" where
  "resume s =
     (case speechSynthesis s of
        None \<Rightarrow> s
      | Some synth \<Rightarrow>
          let remainingProgress = 100 - progress s
          in set_progress_interval
               (ResumeTick remainingProgress (length (text' s)) (rate (voiceSettings s)))
               (clear_progress_interval
                  (s\<lparr>speechSynthesis := Some (call Resume synth), isPlaying := True\<rparr>)))"

definition stop :: "tts_player \<Rightarrow> tts_player" where
  "stop s =
     (case speechSynthesis s of
        None \<Rightarrow> s
      | Some synth \<Rightarrow>
          clear_progress_interval
            (s\<lparr>speechSynthesis := Some (call Cancel synth), isPlaying := False, progress := 0\<rparr>))"

subsection \<open>Mute\<close>

text \<open>\<open>speechSynthRef.current.volume = v\<close>, an assignment to the shared object.\<close>

definition set_live_volume :: "real \<Rightarrow> tts_player \<Rightarrow> tts_player" where
  "set_live_volume v s =
     (case speechSynthRef s of
        None \<Rightarrow> s
      | Some a \<Rightarrow>
          (case utterances s a of
             None \<Rightarrow> s
           | Some u \<Rightarrow> s\<lparr>utterances := (utterances s)(a \<mapsto> u\<lparr>utt_volume := v\<rparr>)\<rparr>))"

text \<open>
  \<open>toggleMute\<close> reads \<open>isMuted\<close> of the render it was created in, that is, the value
  before its own \<open>setIsMuted\<close>.
\<close>

definition toggleMute :: "tts_player \<Rightarrow> tts_player" where
  "toggleMute s =
     (let s1 = s\<lparr>isMuted := \<not> isMuted s\<rparr>
      in if speechSynthesis s \<noteq> None \<and> speechSynthRef s \<noteq> None
         then set_live_volume (if \<not> isMuted s then 0 else volume (voiceSettings s)) s1
         else s1)"

text \<open>The effect with dependencies \<open>[isMuted, voiceSettings.volume]\<close>.\<close>

definition volume_effect :: "tts_player \<Rightarrow> tts_player" where
  "volume_effect s =
     (if speechSynthRef s \<noteq> None
      then set_live_volume (if isMuted s then 0 else volume (voiceSettings s)) s
      else s)"

text \<open>
  After a render, the effect runs when one of its dependencies differs from its value
  at the previous render \<open>prev\<close>.
\<close>

definition run_effects :: "tts_player \<Rightarrow> tts_player \<Rightarrow> tts_player" where
  "run_effects prev s =
     (if isMuted s \<noteq> isMuted prev \<or>
         volume (voiceSettings s) \<noteq> volume (voiceSettings prev)
      then volume_effect s else s)"

text \<open>A click on the mute button: the handler, then the render it causes.\<close>

definition click_mute :: "tts_player \<Rightarrow> tts_player" where
  "click_mute s = run_effects s (toggleMute s)"

text \<open>\<open>Home\<close> renders the player with new props.\<close>

definition receive_props :: "voice_settings \<Rightarrow> environment_settings \<Rightarrow> tts_player \<Rightarrow> tts_player" where
  "receive_props vs env s = run_effects s (s\<lparr>voiceSettings := vs, environmentSettings := env\<rparr>)"

subsection \<open>Interruption simulation\<close>

definition follow_up :: string where
  "follow_up = '' I noticed you wanted to interrupt. How can I help?''"

definition toggleListening :: "tts_player \<Rightarrow> tts_player" where
  "toggleListening s =
     (if isListening s then s\<lparr>isListening := False\<rparr>
      else let s1 = s\<lparr>isListening := True\<rparr>
           in if isPlaying s then set_timeout 2000 (InterruptionTimeout (isPlaying s)) s1
              else s1)"

fun run_timeout :: "timeout_callback \<Rightarrow> tts_player \<Rightarrow> tts_player" where
  "run_timeout (InterruptionTimeout playing) s =
     (let s1 = (if playing
                then set_timeout 1500 ProcessingTimeout ((pause s)\<lparr>interruptionDetected := True\<rparr>)
                else s)
      in s1\<lparr>isListening := False\<rparr>)"
| "run_timeout ProcessingTimeout s =
     s\<lparr>interruptionDetected := False, isListening := False, text' := text' s @ follow_up\<rparr>"

text \<open>The platform fires the pending timeout at position \<open>i\<close>.\<close>

definition fire_timeout :: "nat \<Rightarrow> tts_player \<Rightarrow> tts_player" where
  "fire_timeout i s =
     (if i < length (timeouts s)
      then run_timeout (snd (timeouts s ! i))
             (s\<lparr>timeouts := take i (timeouts s) @ drop (Suc i) (timeouts s)\<rparr>)
      else s)"

subsection \<open>Text area, mount and unmount\<close>

definition setText :: "string \<Rightarrow> tts_player \<Rightarrow> tts_player" where
  "setText t s = s\<lparr>text' := t\<rparr>"

definition mount_effect :: "tts_player \<Rightarrow> tts_player" where
  "mount_effect s =
     (case speechSynthesis s of
        None \<Rightarrow> s
      | Some synth \<Rightarrow> s\<lparr>speechSynthesis := Some (call GetVoices synth)\<rparr>)"

definition cleanup :: "tts_player \<Rightarrow> tts_player" where
  "cleanup s =
     (let s1 = clear_progress_interval s
      in case speechSynthesis s1 of
           None \<Rightarrow> s1
         | Some synth \<Rightarrow> s1\<lparr>speechSynthesis := Some (call Cancel synth)\<rparr>)"

subsection \<open>What the view offers\<close>

text \<open>
  The render shows the Pause button only while \<open>isPlaying\<close>, the Resume button only
  when \<open>!isPlaying && progress > 0 && progress < 100\<close>, and disables the Stop button when
  \<open>!isPlaying && progress === 0\<close>. The playback status is read off the same conditions.
  The two buttons are the only call sites of \<open>pause\<close> and \<open>resume\<close>, but for the call of
  \<open>pause\<close> in the timeout callback of \<open>toggleListening\<close>.
\<close>

datatype playback_status = Idle | Speaking | Paused

definition status :: "tts_player \<Rightarrow> playback_status" where
  "status s =
     (if isPlaying s then Speaking
      else if 0 < progress s \<and> progress s < 100 then Paused
      else Idle)"

definition pause_offered :: "tts_player \<Rightarrow> bool" where
  "pause_offered s \<longleftrightarrow> isPlaying s"

definition resume_offered :: "tts_player \<Rightarrow> bool" where
  "resume_offered s \<longleftrightarrow> \<not> isPlaying s \<and> 0 < progress s \<and> progress s < 100"

definition stop_disabled :: "tts_player \<Rightarrow> bool" where
  "stop_disabled s \<longleftrightarrow> \<not> isPlaying s \<and> progress s = 0"

subsection \<open>Reachable states of the player\<close>

definition calls_of :: "tts_player \<Rightarrow> synth_call list" where
  "calls_of s = (case speechSynthesis s of None \<Rightarrow> [] | Some synth \<Rightarrow> calls synth)"

text \<open>
  Every handler may run at any time, whatever the view offers; the service calls the
  lifecycle handlers only of utterances it was given; an interval ticks only while it
  is active, and a tick changes the progress and nothing else (to the value that \<open>tick\<close>
  computes; any value is allowed for here). This covers every run of the component,
  and more.
\<close>

inductive reachable :: "tts_player \<Rightarrow> bool" where
  r_mount: "reachable (mount_effect (initial_player vs env synth))"
| r_speak: "reachable s \<Longrightarrow> reachable (speak s)"
| r_pause: "reachable s \<Longrightarrow> reachable (pause s)"
| r_resume: "reachable s \<Longrightarrow> reachable (resume s)"
| r_stop: "reachable s \<Longrightarrow> reachable (stop s)"
| r_mute: "reachable s \<Longrightarrow> reachable (click_mute s)"
| r_listen: "reachable s \<Longrightarrow> reachable (toggleListening s)"
| r_text: "reachable s \<Longrightarrow> reachable (setText t s)"
| r_props: "reachable s \<Longrightarrow> reachable (receive_props vs env s)"
| r_timeout: "reachable s \<Longrightarrow> reachable (fire_timeout i s)"
| r_tick: "reachable s \<Longrightarrow> intervals s h = Some cb \<Longrightarrow> reachable (s\<lparr>progress := p\<rparr>)"
| r_onstart: "reachable s \<Longrightarrow> Speak a \<in> set (calls_of s) \<Longrightarrow> reachable (onstart a s)"
| r_onend: "reachable s \<Longrightarrow> Speak a \<in> set (calls_of s) \<Longrightarrow> reachable (onend s)"
| r_onerror: "reachable s \<Longrightarrow> Speak a \<in> set (calls_of s) \<Longrightarrow> reachable (onerror s)"
| r_cleanup: "reachable s \<Longrightarrow> reachable (cleanup s)"

text \<open>
  Two facts that every reachable state will be shown to satisfy: an active interval
  is the one that \<open>progressIntervalRef\<close> holds, and a player without a speech service has
  never started anything.
\<close>

definition single_ticker :: "tts_player \<Rightarrow> bool" where
  "single_ticker s \<longleftrightarrow> (\<forall>h. intervals s h \<noteq> None \<longrightarrow> progressIntervalRef s = Some h)"

definition silent_when_unavailable :: "tts_player \<Rightarrow> bool" where
  "silent_when_unavailable s \<longleftrightarrow>
     (speechSynthesis s = None \<longrightarrow> progress s = 0 \<and> \<not> isPlaying s \<and> intervals s = Map.empty)"

definition player_inv :: "tts_player \<Rightarrow> bool" where
  "player_inv s \<longleftrightarrow> single_ticker s \<and> silent_when_unavailable s"

text \<open>A player on a platform with one voice, mounted with the given props.\<close>

definition one_voice :: speech_synthesis where
  "one_voice = \<lparr>voices = [\<lparr>voice_name = ''en-US-Neural2-F'', voice_lang = ''en-US''\<rparr>], calls = []\<rparr>"

definition mounted :: "voice_settings \<Rightarrow> environment_settings \<Rightarrow> tts_player" where
  "mounted vs env = mount_effect (initial_player vs env (Some one_voice))"

definition noisy :: environment_settings where
  "noisy = \<lparr>noiseLevel = ''high'', adaptToNoise = True\<rparr>"

section \<open>Gesture monitor (GestureController)\<close>

datatype permission = Granted | Denied | Pending

text \<open>
  What one run of \<open>detectGestures\<close> finds outside the component: whether the video has
  data and the canvas a context (\<open>readyState === 4\<close>, \<open>ctx\<close>), and what the two random draws
  of \<open>simulateGestureDetection\<close> give: nothing on most frames, else a gesture name and
  a confidence in percent.
\<close>

record frame_input =
  ready :: bool
  sample :: "(string \<times> real) option"

text \<open>
  The state of the controller: the \<open>enabled\<close> prop, its \<open>useState\<close> cells, whether
  \<open>videoRef.current\<close> and \<open>canvasRef.current\<close> are set, the stream and frame refs, the
  animation frame callbacks that the platform still holds (each is one pending run of
  \<open>detectGestures\<close>, so each is one running sampling loop), the \<open>getUserMedia\<close> requests
  not yet answered (each with the \<open>enabled\<close> its \<open>startCamera\<close> closure captured), the
  gestures reported to the parent, and the number of pending clear-gesture timeouts.
\<close>

record gesture_controller =
  enabled :: bool
  cameraPermission :: permission
  detectedGesture :: "string option"
  gestureConfidence :: real
  videoRef :: bool
  canvasRef :: bool
  streamRef :: "nat option"
  animationFrameRef :: "nat option"
  frames :: "nat list"
  next_frame :: nat
  camera_requests :: "bool list"
  reported :: "string list"
  clear_timeouts :: nat

definition simulateGestureDetection :: "frame_input \<Rightarrow> gesture_controller \<Rightarrow> gesture_controller" where
  "simulateGestureDetection fi s =
     (case sample fi of
        None \<Rightarrow> s
      | Some (g, confidence) \<Rightarrow>
          s\<lparr>detectedGesture := Some g, gestureConfidence := confidence,
            reported := reported s @ [g], clear_timeouts := Suc (clear_timeouts s)\<rparr>)"

text \<open>\<open>animationFrameRef.current = requestAnimationFrame(detectGestures)\<close>\<close>

definition request_frame :: "gesture_controller \<Rightarrow> gesture_controller" where
  "request_frame s =
     s\<lparr>frames := frames s @ [next_frame s],
       animationFrameRef := Some (next_frame s),
       next_frame := Suc (next_frame s)\<rparr>"

definition detectGestures :: "frame_input \<Rightarrow> gesture_controller \<Rightarrow> gesture_controller" where
  "detectGestures fi s =
     request_frame
       (if videoRef s \<and> canvasRef s \<and> ready fi then simulateGestureDetection fi s else s)"

text \<open>\<open>startGestureDetection\<close>, with the \<open>enabled\<close> of the render that created it.\<close>

definition startGestureDetection ::
  "bool \<Rightarrow> frame_input \<Rightarrow> gesture_controller \<Rightarrow> gesture_controller" where
  "startGestureDetection en fi s =
     (if \<not> en \<or> \<not> videoRef s \<or> \<not> canvasRef s then s else detectGestures fi s)"

definition cancel_frame :: "gesture_controller \<Rightarrow> gesture_controller" where
  "cancel_frame s =
     (case animationFrameRef s of
        None \<Rightarrow> s
      | Some h \<Rightarrow> s\<lparr>frames := removeAll h (frames s), animationFrameRef := None\<rparr>)"

definition stopGestureDetection :: "gesture_controller \<Rightarrow> gesture_controller" where
  "stopGestureDetection s = (cancel_frame s)\<lparr>detectedGesture := None, gestureConfidence := 0\<rparr>"

definition stopCamera :: "gesture_controller \<Rightarrow> gesture_controller" where
  "stopCamera s = cancel_frame (s\<lparr>streamRef := None\<rparr>)"

text \<open>
  \<open>startCamera\<close> up to its \<open>await\<close>, and its two continuations: the stream arrives, or
  the request is refused.
\<close>

definition startCamera :: "gesture_controller \<Rightarrow> gesture_controller" where
  "startCamera s = s\<lparr>camera_requests := camera_requests s @ [enabled s]\<rparr>"

definition camera_resolved ::
  "nat \<Rightarrow> bool \<Rightarrow> frame_input \<Rightarrow> gesture_controller \<Rightarrow> gesture_controller" where
  "camera_resolved stream en fi s =
     (let s1 = s\<lparr>streamRef := Some stream\<rparr>
      in if videoRef s1
         then let s2 = s1\<lparr>cameraPermission := Granted\<rparr>
              in if en then startGestureDetection en fi s2 else s2
         else s1)"

definition camera_rejected :: "gesture_controller \<Rightarrow> gesture_controller" where
  "camera_rejected s = s\<lparr>cameraPermission := Denied\<rparr>"

text \<open>The effect with dependencies \<open>[enabled, cameraPermission]\<close>.\<close>

definition toggle_effect :: "frame_input \<Rightarrow> gesture_controller \<Rightarrow> gesture_controller" where
  "toggle_effect fi s =
     (if enabled s
      then (if cameraPermission s = Pending then startCamera s
            else if cameraPermission s = Granted then startGestureDetection (enabled s) fi s
            else s)
      else stopGestureDetection s)"

text \<open>
  A render: the \<open>video\<close> and \<open>canvas\<close> elements are part of the output exactly when
  \<open>cameraPermission === "granted"\<close>, and their refs are set exactly while they are; then
  the effect runs if one of its dependencies changed since the render \<open>prev\<close>.
\<close>

definition attach_refs :: "gesture_controller \<Rightarrow> gesture_controller" where
  "attach_refs s =
     s\<lparr>videoRef := (cameraPermission s = Granted), canvasRef := (cameraPermission s = Granted)\<rparr>"

definition render :: "frame_input \<Rightarrow> gesture_controller \<Rightarrow> gesture_controller \<Rightarrow> gesture_controller" where
  "render fi prev s =
     (let s1 = attach_refs s
      in if enabled s1 \<noteq> enabled prev \<or> cameraPermission s1 \<noteq> cameraPermission prev
         then toggle_effect fi s1 else s1)"

text \<open>The first render with prop \<open>enabled = en\<close>; every effect runs after it.\<close>

definition gesture_mount :: "bool \<Rightarrow> frame_input \<Rightarrow> gesture_controller" where
  "gesture_mount en fi =
     toggle_effect fi
       (attach_refs
          \<lparr>enabled = en, cameraPermission = Pending, detectedGesture = None,
           gestureConfidence = 0, videoRef = False, canvasRef = False, streamRef = None,
           animationFrameRef = None, frames = [], next_frame = 0, camera_requests = [],
           reported = [], clear_timeouts = 0\<rparr>)"

text \<open>
  What can happen to a mounted controller: the switch is toggled, the Setup Camera
  button (shown while the permission is pending) is clicked, the oldest camera request
  is granted or refused, a pending animation frame runs, a clear-gesture timeout fires,
  the controller is unmounted.
\<close>

datatype gesture_event =
  Toggle
| SetupCamera
| CameraGranted nat
| CameraRefused
| Frame nat
| ClearGesture
| Unmount

fun gesture_step :: "frame_input \<Rightarrow> gesture_event \<Rightarrow> gesture_controller \<Rightarrow> gesture_controller" where
  "gesture_step fi Toggle s = render fi s (s\<lparr>enabled := \<not> enabled s\<rparr>)"
| "gesture_step fi SetupCamera s =
     (if cameraPermission s = Pending then startCamera s else s)"
| "gesture_step fi (CameraGranted stream) s =
     (case camera_requests s of
        [] \<Rightarrow> s
      | en # rest \<Rightarrow> render fi s (camera_resolved stream en fi (s\<lparr>camera_requests := rest\<rparr>)))"
| "gesture_step fi CameraRefused s =
     (case camera_requests s of
        [] \<Rightarrow> s
      | en # rest \<Rightarrow> render fi s (camera_rejected (s\<lparr>camera_requests := rest\<rparr>)))"
| "gesture_step fi (Frame h) s =
     (if h \<in> set (frames s)
      then detectGestures fi (s\<lparr>frames := removeAll h (frames s)\<rparr>)
      else s)"
| "gesture_step fi ClearGesture s =
     (if 0 < clear_timeouts s
      then s\<lparr>detectedGesture := None, gestureConfidence := 0,
             clear_timeouts := clear_timeouts s - 1\<rparr>
      else s)"
| "gesture_step fi Unmount s = stopCamera s"

fun gesture_run ::
  "gesture_controller \<Rightarrow> (frame_input \<times> gesture_event) list \<Rightarrow> gesture_controller" where
  "gesture_run s [] = s"
| "gesture_run s ((fi, ev) # rest) = gesture_run (gesture_step fi ev s) rest"

text \<open>The states in which no sampling loop runs and none can be started.\<close>

definition no_loop :: "gesture_controller \<Rightarrow> bool" where
  "no_loop s \<longleftrightarrow>
     cameraPermission s \<noteq> Granted \<and> \<not> videoRef s \<and> \<not> canvasRef s \<and>
     frames s = [] \<and> animationFrameRef s = None"

text \<open>Every frame finds the video ready and draws a volume-up gesture.\<close>

definition eager :: frame_input where
  "eager = \<lparr>ready = True, sample = Some (''volume-up'', 90)\<rparr>"

section \<open>Properties of the settings store\<close>

lemma in_ranges_default: "in_ranges default_voiceSettings"
  by (simp add: in_ranges_def default_voiceSettings_def)

lemma in_ranges_volume:
  "in_ranges vs \<Longrightarrow> 0.1 \<le> v \<Longrightarrow> v \<le> 2 \<Longrightarrow> in_ranges (vs\<lparr>volume := v\<rparr>)"
  by (simp add: in_ranges_def)

lemma in_ranges_rate:
  "in_ranges vs \<Longrightarrow> 0.5 \<le> v \<Longrightarrow> v \<le> 2 \<Longrightarrow> in_ranges (vs\<lparr>rate := v\<rparr>)"
  by (simp add: in_ranges_def)

lemma in_ranges_gesture:
  assumes "in_ranges vs"
  shows "in_ranges (onGestureDetected g vs)"
proof -
  have v: "0.1 \<le> volume vs" "volume vs \<le> 2" and r: "0.5 \<le> rate vs" "rate vs \<le> 2"
    using assms by (simp_all add: in_ranges_def)
  have up: "in_ranges (vs\<lparr>volume := min 2.0 (volume vs + 0.1)\<rparr>)"
    using assms v by (intro in_ranges_volume) simp_all
  have down: "in_ranges (vs\<lparr>volume := max 0.1 (volume vs - 0.1)\<rparr>)"
    using assms v by (intro in_ranges_volume) simp_all
  have faster: "in_ranges (vs\<lparr>rate := min 2.0 (rate vs + 0.1)\<rparr>)"
    using assms r by (intro in_ranges_rate) simp_all
  have slower: "in_ranges (vs\<lparr>rate := max 0.5 (rate vs - 0.1)\<rparr>)"
    using assms r by (intro in_ranges_rate) simp_all
  show ?thesis
    unfolding onGestureDetected_def using up down faster slower assms
    by (simp only: if_split) blast
qed

lemma in_ranges_control:
  "in_ranges vs \<Longrightarrow> control_emits c \<Longrightarrow>
   in_ranges (handleVoiceSettingsChange (customizer_onChange c) vs)"
  by (cases c)
     (simp_all add: in_ranges_def handleVoiceSettingsChange_def no_change_def slider_emits_def)

lemma in_ranges_update:
  assumes "in_ranges vs" and "update_emits u"
  shows "in_ranges (apply_update vs u)"
  using assms
proof (cases u)
  case (Manual c)
  then show ?thesis using assms by (simp add: in_ranges_control)
next
  case (EmotionDetected e)
  then show ?thesis using assms by (simp add: in_ranges_def handleEmotionDetected_def)
next
  case (Gesture g)
  then show ?thesis using assms by (simp add: in_ranges_gesture)
qed

lemma in_ranges_foldl:
  "in_ranges vs \<Longrightarrow> \<forall>u \<in> set us. update_emits u \<Longrightarrow> in_ranges (foldl apply_update vs us)"
  by (induction us arbitrary: vs) (simp_all add: in_ranges_update)

text \<open>
  C3. Starting from the default voice settings, after any finite sequence of manual
  control updates (each slider reporting a value within its \<open>min\<close> and \<open>max\<close>), detected
  emotions and gestures, the rate and the pitch lie in [0.5, 2.0] and the volume lies
  in [0.1, 2.0].
\<close>

theorem clamping_invariant:
  assumes "\<forall>u \<in> set us. update_emits u"
  shows "0.5 \<le> rate (apply_updates default_voiceSettings us) \<and>
         rate (apply_updates default_voiceSettings us) \<le> 2.0 \<and>
         0.5 \<le> pitch (apply_updates default_voiceSettings us) \<and>
         pitch (apply_updates default_voiceSettings us) \<le> 2.0 \<and>
         0.1 \<le> volume (apply_updates default_voiceSettings us) \<and>
         volume (apply_updates default_voiceSettings us) \<le> 2.0"
proof -
  have "in_ranges (apply_updates default_voiceSettings us)"
    unfolding apply_updates_def using in_ranges_default assms by (rule in_ranges_foldl)
  then show ?thesis by (simp add: in_ranges_def)
qed

text \<open>
  A run that touches every bound: eleven volume-up gestures from 1.0 stop at 2.0, the
  rate slider at its maximum followed by a speed-up gesture stays at 2.0, and the pitch
  slider sets 0.5.
\<close>

theorem clamping_invariant_witness:
  "0.5 \<le> rate (apply_updates default_voiceSettings
      (replicate 11 (Gesture ''volume-up'') @
       [Manual (RateSlider 2), Gesture ''speed-up'', Manual (PitchSlider 0.5)])) \<and>
   rate (apply_updates default_voiceSettings
      (replicate 11 (Gesture ''volume-up'') @
       [Manual (RateSlider 2), Gesture ''speed-up'', Manual (PitchSlider 0.5)])) \<le> 2.0 \<and>
   0.5 \<le> pitch (apply_updates default_voiceSettings
      (replicate 11 (Gesture ''volume-up'') @
       [Manual (RateSlider 2), Gesture ''speed-up'', Manual (PitchSlider 0.5)])) \<and>
   pitch (apply_updates default_voiceSettings
      (replicate 11 (Gesture ''volume-up'') @
       [Manual (RateSlider 2), Gesture ''speed-up'', Manual (PitchSlider 0.5)])) \<le> 2.0 \<and>
   0.1 \<le> volume (apply_updates default_voiceSettings
      (replicate 11 (Gesture ''volume-up'') @
       [Manual (RateSlider 2), Gesture ''speed-up'', Manual (PitchSlider 0.5)])) \<and>
   volume (apply_updates default_voiceSettings
      (replicate 11 (Gesture ''volume-up'') @
       [Manual (RateSlider 2), Gesture ''speed-up'', Manual (PitchSlider 0.5)])) \<le> 2.0"
proof -
  have emitted: "\<forall>u \<in> set (replicate 11 (Gesture ''volume-up'') @
       [Manual (RateSlider 2), Gesture ''speed-up'', Manual (PitchSlider 0.5)]). update_emits u"
    by (simp add: slider_emits_def)
  show ?thesis by (rule clamping_invariant [OF emitted])
qed

section \<open>Properties of the noise monitor\<close>

lemma normalizedValue_bounds: "0 \<le> normalizedValue a \<and> normalizedValue a \<le> 100"
  by (simp add: normalizedValue_def)

lemma noise_low: "noise_level_of v = ''low'' \<longleftrightarrow> v < 20"
  by (simp add: noise_level_of_def)

lemma noise_high: "noise_level_of v = ''high'' \<longleftrightarrow> v > 60"
  by (simp add: noise_level_of_def)

lemma noise_normal: "noise_level_of v = ''normal'' \<longleftrightarrow> 20 \<le> v \<and> v \<le> 60"
  by (simp add: noise_level_of_def not_less)

lemma tick_level:
  "fst (snd (updateAnalysis settings dataArray)) =
   noise_level_of (normalizedValue (average_of dataArray))"
  by (simp add: updateAnalysis_def Let_def)

text \<open>
  What \<open>Home\<close> stores: a tick whose level differs from the captured one is stored; a
  tick whose level equals the captured one leaves the stored level as it is, whatever
  that is. After a loud sample has been stored in a session that started at \<open>normal\<close>,
  a sample of class \<open>normal\<close> therefore leaves \<open>high\<close> in the store.
\<close>

lemma after_tick_changed:
  assumes "noise_level_of (normalizedValue (average_of dataArray)) \<noteq> noiseLevel captured"
  shows "noiseLevel (after_tick captured current dataArray) =
         noise_level_of (normalizedValue (average_of dataArray))"
  using assms by (simp add: after_tick_def updateAnalysis_def handleEnvironmentChange_def Let_def)

lemma after_tick_unchanged:
  assumes "noise_level_of (normalizedValue (average_of dataArray)) = noiseLevel captured"
  shows "after_tick captured current dataArray = current"
  using assms by (simp add: after_tick_def updateAnalysis_def Let_def)

lemma average_constant: "average_of (\<lambda>i. b) = real (unat b)"
proof -
  have "foldl (\<lambda>sum i. sum + unat b) a xs = a + length xs * unat b" for a and xs :: "nat list"
    by (induction xs arbitrary: a) simp_all
  then have "sum_loop (\<lambda>i. b) = bufferLength * unat b"
    by (simp add: sum_loop_def)
  then show ?thesis
    by (simp add: average_of_def bufferLength_def frequencyBinCount_def fftSize_def)
qed

lemma stale_level:
  "noise_level_of (normalizedValue (average_of (\<lambda>i. 50))) = ''high'' \<and>
   noise_level_of (normalizedValue (average_of (\<lambda>i. 20))) = ''normal'' \<and>
   noiseLevel (after_tick default_environmentSettings
      (after_tick default_environmentSettings default_environmentSettings (\<lambda>i. 50))
      (\<lambda>i. 20)) = ''high''"
proof -
  have loud: "noise_level_of (normalizedValue (average_of (\<lambda>i. 50))) = ''high''"
    by (simp add: average_constant normalizedValue_def noise_level_of_def)
  have calm: "noise_level_of (normalizedValue (average_of (\<lambda>i. 20))) = ''normal''"
    by (simp add: average_constant normalizedValue_def noise_level_of_def)
  have "noiseLevel (after_tick default_environmentSettings default_environmentSettings (\<lambda>i. 50))
        = ''high''"
    using after_tick_changed [of "\<lambda>i. 50" default_environmentSettings default_environmentSettings]
      loud by (simp add: default_environmentSettings_def)
  moreover have "after_tick default_environmentSettings current (\<lambda>i. 20) = current" for current
    using calm by (intro after_tick_unchanged) (simp add: default_environmentSettings_def)
  ultimately show ?thesis using loud calm by simp
qed

text \<open>
  C4. On every tick the noise value is the mean amplitude times 1.5, clamped to
  [0, 100], and the level that the tick computes is the class of that value: \<open>low\<close>
  exactly below 20, \<open>normal\<close> exactly from 20 to 60, \<open>high\<close> exactly above 60. So 19.9
  is low, 20.0 and 60.0 are normal, and 60.1 is high.
\<close>

theorem noise_classification:
  "fst (updateAnalysis settings dataArray) = normalizedValue (average_of dataArray) \<and>
   fst (snd (updateAnalysis settings dataArray)) =
     noise_level_of (normalizedValue (average_of dataArray)) \<and>
   normalizedValue average = min 100 (max 0 (average * 1.5)) \<and>
   0 \<le> normalizedValue average \<and> normalizedValue average \<le> 100 \<and>
   (noise_level_of v = ''low'' \<longleftrightarrow> v < 20) \<and>
   (noise_level_of v = ''normal'' \<longleftrightarrow> 20 \<le> v \<and> v \<le> 60) \<and>
   (noise_level_of v = ''high'' \<longleftrightarrow> v > 60) \<and>
   noise_level_of 19.9 = ''low'' \<and> noise_level_of 20.0 = ''normal'' \<and>
   noise_level_of 60.0 = ''normal'' \<and> noise_level_of 60.1 = ''high''"
proof -
  have "fst (updateAnalysis settings dataArray) = normalizedValue (average_of dataArray)"
    by (simp add: updateAnalysis_def Let_def)
  moreover have "noise_level_of 19.9 = ''low''" "noise_level_of 20.0 = ''normal''"
    "noise_level_of 60.0 = ''normal''" "noise_level_of 60.1 = ''high''"
    by (simp_all add: noise_level_of_def)
  moreover have "normalizedValue average = min 100 (max 0 (average * 1.5))"
    by (simp add: normalizedValue_def)
  ultimately show ?thesis
    using tick_level normalizedValue_bounds noise_low noise_normal noise_high
    by blast
qed

section \<open>Properties of speak\<close>

lemma spoken_speak:
  assumes "speechSynthesis s = Some synth"
  shows "spoken (speak s) = utterances (speak s) (next_utterance s)"
  using assms by (simp add: speak_def spoken_def call_def Let_def)

lemma speak_stored_volume:
  assumes "speechSynthesis s = Some synth"
  shows "\<exists>u. utterances (speak s) (next_utterance s) = Some u \<and>
     utt_volume u =
       (if adaptToNoise (environmentSettings s) \<and> noiseLevel (environmentSettings s) = ''high''
        then min 1 ((if isMuted s then 0 else volume (voiceSettings s)) * 1.5)
        else (if isMuted s then 0 else volume (voiceSettings s)))"
  using assms by (simp add: speak_def Let_def new_utterance_def split: option.split)

lemma spoken_volume:
  assumes "speechSynthesis s = Some synth"
  shows "\<exists>u. spoken (speak s) = Some u \<and>
     utt_volume u =
       (if isMuted s then 0
        else if adaptToNoise (environmentSettings s) \<and> noiseLevel (environmentSettings s) = ''high''
        then min 1 (volume (voiceSettings s) * 1.5)
        else volume (voiceSettings s))"
proof -
  obtain u where u: "utterances (speak s) (next_utterance s) = Some u"
    and v: "utt_volume u =
       (if adaptToNoise (environmentSettings s) \<and> noiseLevel (environmentSettings s) = ''high''
        then min 1 ((if isMuted s then 0 else volume (voiceSettings s)) * 1.5)
        else (if isMuted s then 0 else volume (voiceSettings s)))"
    using speak_stored_volume [OF assms] by blast
  have "spoken (speak s) = Some u"
    using spoken_speak [OF assms] u by simp
  moreover have "utt_volume u =
       (if isMuted s then 0
        else if adaptToNoise (environmentSettings s) \<and> noiseLevel (environmentSettings s) = ''high''
        then min 1 (volume (voiceSettings s) * 1.5)
        else volume (voiceSettings s))"
    using v by simp
  ultimately show ?thesis by blast
qed

lemma speak_fields:
  assumes "speechSynthesis s = Some synth"
  shows "speechSynthRef (speak s) = Some (next_utterance s) \<and>
     isMuted (speak s) = isMuted s \<and> voiceSettings (speak s) = voiceSettings s \<and>
     environmentSettings (speak s) = environmentSettings s"
  using assms by (simp add: speak_def Let_def)

lemma mounted_fields:
  "speechSynthesis (mounted vs env) = Some (call GetVoices one_voice) \<and>
   \<not> isMuted (mounted vs env) \<and> voiceSettings (mounted vs env) = vs \<and>
   environmentSettings (mounted vs env) = env \<and> next_utterance (mounted vs env) = 0 \<and>
   speechSynthRef (mounted vs env) = None \<and> \<not> isPlaying (mounted vs env) \<and>
   progress (mounted vs env) = 0 \<and> \<not> isListening (mounted vs env)"
  by (simp add: mounted_def mount_effect_def initial_player_def)

text \<open>
  C1 (as amended). With the speech service present, the volume of the utterance that
  \<open>speak\<close> hands to the service is 0 when the player is muted; when it is not muted it is
  \<open>min 1 (volume * 1.5)\<close> if \<open>adaptToNoise\<close> holds and the noise level is \<open>high\<close>, and the
  stored volume itself otherwise, in particular whenever \<open>adaptToNoise\<close> is off.
\<close>

theorem speak_volume:
  assumes "speechSynthesis s = Some synth"
  shows "\<exists>u. spoken (speak s) = Some u \<and>
     utt_volume u =
       (if isMuted s then 0
        else if adaptToNoise (environmentSettings s) \<and> noiseLevel (environmentSettings s) = ''high''
        then min 1 (volume (voiceSettings s) * 1.5)
        else volume (voiceSettings s))"
  using assms by (rule spoken_volume)

text \<open>
  With the stored volume 0.5 in a noisy room, the service receives 0.75.
\<close>

theorem speak_volume_witness:
  "map_option utt_volume (spoken (speak (mounted (default_voiceSettings\<lparr>volume := 0.5\<rparr>) noisy)))
   = Some 0.75"
proof -
  let ?s = "mounted (default_voiceSettings\<lparr>volume := 0.5\<rparr>) noisy"
  have h: "speechSynthesis ?s = Some (call GetVoices one_voice)"
    using mounted_fields by blast
  obtain u where "spoken (speak ?s) = Some u" and "utt_volume u =
       (if isMuted ?s then 0
        else if adaptToNoise (environmentSettings ?s) \<and> noiseLevel (environmentSettings ?s) = ''high''
        then min 1 (volume (voiceSettings ?s) * 1.5)
        else volume (voiceSettings ?s))"
    using speak_volume [OF h] by blast
  then show ?thesis by (simp add: mounted_fields noisy_def)
qed

text \<open>
  The claim as written fails when the player is muted: with \<open>adaptToNoise\<close> off and the
  stored volume 1, the service receives volume 0, not 1; and in a noisy room with
  adaptation on it receives 0, not \<open>min 1 (1 * 1.5) = 1\<close>.
\<close>

theorem speak_volume_counterexample:
  "adaptToNoise \<lparr>noiseLevel = ''low'', adaptToNoise = False\<rparr> = False \<and>
   volume default_voiceSettings = 1 \<and>
   map_option utt_volume
     (spoken (speak (click_mute (mounted default_voiceSettings
        \<lparr>noiseLevel = ''low'', adaptToNoise = False\<rparr>)))) = Some 0 \<and>
   map_option utt_volume
     (spoken (speak (click_mute (mounted default_voiceSettings
        \<lparr>noiseLevel = ''low'', adaptToNoise = False\<rparr>)))) \<noteq> Some (volume default_voiceSettings) \<and>
   map_option utt_volume
     (spoken (speak (click_mute (mounted default_voiceSettings noisy)))) = Some 0 \<and>
   map_option utt_volume
     (spoken (speak (click_mute (mounted default_voiceSettings noisy))))
     \<noteq> Some (min 1 (volume default_voiceSettings * 1.5))"
  by (simp add: spoken_def speak_def click_mute_def run_effects_def volume_effect_def
      set_live_volume_def toggleMute_def mounted_def mount_effect_def
      initial_player_def default_voiceSettings_def noisy_def one_voice_def call_def
      new_utterance_def selectedVoice_def Let_def)

text \<open>
  C9. Without the speech service, \<open>speak\<close> returns the state it was given: status,
  progress, text, mute and listening flags, refs and timers are all unchanged. The
  model of \<open>speak\<close> has no failing branch, as the source has no \<open>throw\<close>.
\<close>

theorem speak_unavailable:
  assumes "speechSynthesis s = None"
  shows "speak s = s"
  using assms by (simp add: speak_def)

theorem speak_unavailable_witness:
  "speak (mount_effect (initial_player default_voiceSettings default_environmentSettings None))
   = mount_effect (initial_player default_voiceSettings default_environmentSettings None)"
proof -
  have "speechSynthesis
     (mount_effect (initial_player default_voiceSettings default_environmentSettings None)) = None"
    by (simp add: mount_effect_def initial_player_def)
  then show ?thesis by (rule speak_unavailable)
qed

section \<open>Properties of muting\<close>

lemma toggleMute_record:
  "(toggleMute s)\<lparr>isMuted := isMuted s, utterances := utterances s\<rparr> = s"
proof -
  have "(set_live_volume v (s\<lparr>isMuted := b\<rparr>))\<lparr>isMuted := isMuted s, utterances := utterances s\<rparr> = s"
    for v b
    by (simp add: set_live_volume_def split: option.split)
  then show ?thesis by (simp add: toggleMute_def Let_def)
qed

lemma volume_effect_live:
  "speechSynthRef s = Some a \<Longrightarrow> utterances s a = Some u \<Longrightarrow>
   utterances (volume_effect s) a =
     Some (u\<lparr>utt_volume := (if isMuted s then 0 else volume (voiceSettings s))\<rparr>)"
  by (simp add: volume_effect_def set_live_volume_def)

lemma click_mute_live:
  assumes "speechSynthRef s = Some a" and "utterances s a = Some u"
  shows "utterances (click_mute s) a =
     Some (u\<lparr>utt_volume := (if isMuted s then volume (voiceSettings s) else 0)\<rparr>)"
  using assms
  by (simp add: click_mute_def run_effects_def volume_effect_def toggleMute_def
      set_live_volume_def Let_def)

lemma click_mute_fields:
  "speechSynthRef (click_mute s) = speechSynthRef s \<and>
   isMuted (click_mute s) = (\<not> isMuted s) \<and>
   voiceSettings (click_mute s) = voiceSettings s \<and>
   environmentSettings (click_mute s) = environmentSettings s"
  by (simp add: click_mute_def run_effects_def volume_effect_def toggleMute_def
      set_live_volume_def Let_def split: option.split)

lemma receive_props_live:
  assumes "speechSynthRef s = Some a" and "utterances s a = Some u"
    and "volume vs \<noteq> volume (voiceSettings s)"
  shows "utterances (receive_props vs env s) a =
     Some (u\<lparr>utt_volume := (if isMuted s then 0 else volume vs)\<rparr>)"
  using assms
  by (simp add: receive_props_def run_effects_def volume_effect_def set_live_volume_def)

lemma unmute_discards_boost:
  assumes "speechSynthesis s = Some synth" and "\<not> isMuted s"
  shows "\<exists>u. spoken (speak s) = Some u \<and>
     utt_volume u =
       (if adaptToNoise (environmentSettings s) \<and> noiseLevel (environmentSettings s) = ''high''
        then min 1 (volume (voiceSettings s) * 1.5) else volume (voiceSettings s)) \<and>
     utterances (click_mute (click_mute (speak s))) (next_utterance s) =
       Some (u\<lparr>utt_volume := volume (voiceSettings s)\<rparr>) \<and>
     environmentSettings (click_mute (click_mute (speak s))) = environmentSettings s"
proof -
  let ?a = "next_utterance s"
  obtain u where u: "spoken (speak s) = Some u" and uv: "utt_volume u =
       (if isMuted s then 0
        else if adaptToNoise (environmentSettings s) \<and> noiseLevel (environmentSettings s) = ''high''
        then min 1 (volume (voiceSettings s) * 1.5)
        else volume (voiceSettings s))"
    using spoken_volume [OF assms(1)] by blast
  then have live: "utterances (speak s) ?a = Some u"
    using spoken_speak [OF assms(1)] by simp
  have ref: "speechSynthRef (speak s) = Some ?a" and m: "\<not> isMuted (speak s)"
    and vs: "voiceSettings (speak s) = voiceSettings s"
    and env: "environmentSettings (speak s) = environmentSettings s"
    using speak_fields [OF assms(1)] assms(2) by simp_all
  let ?s1 = "click_mute (speak s)"
  have live1: "utterances ?s1 ?a = Some (u\<lparr>utt_volume := 0\<rparr>)"
    using click_mute_live [OF ref live] m by simp
  have f1: "speechSynthRef ?s1 = Some ?a" "isMuted ?s1" "voiceSettings ?s1 = voiceSettings s"
    "environmentSettings ?s1 = environmentSettings s"
    using click_mute_fields [of "speak s"] ref m vs env by simp_all
  have "utterances (click_mute ?s1) ?a = Some (u\<lparr>utt_volume := volume (voiceSettings s)\<rparr>)"
    using click_mute_live [OF f1(1) live1] f1(2,3) by simp
  moreover have "environmentSettings (click_mute ?s1) = environmentSettings s"
    using click_mute_fields [of ?s1] f1(4) by simp
  moreover have "utt_volume u =
       (if adaptToNoise (environmentSettings s) \<and> noiseLevel (environmentSettings s) = ''high''
        then min 1 (volume (voiceSettings s) * 1.5) else volume (voiceSettings s))"
    using uv assms(2) by simp
  ultimately show ?thesis using u by blast
qed

text \<open>
  C8. \<open>toggleMute\<close> changes nothing but the mute flag and the store of utterances: put
  the old flag and the old store back and the state is the one before. The flag is
  negated, the voice settings are the same, every utterance other than the live one is
  untouched, and the live one differs at most in its volume, which becomes 0 when
  muting and the stored volume when unmuting (with the speech service present).
\<close>

theorem toggleMute_frame:
  "(toggleMute s)\<lparr>isMuted := isMuted s, utterances := utterances s\<rparr> = s \<and>
   isMuted (toggleMute s) = (\<not> isMuted s) \<and>
   voiceSettings (toggleMute s) = voiceSettings s \<and>
   (\<forall>a. speechSynthRef s \<noteq> Some a \<longrightarrow> utterances (toggleMute s) a = utterances s a) \<and>
   (\<forall>a u. speechSynthRef s = Some a \<and> utterances s a = Some u \<longrightarrow>
      utterances (toggleMute s) a =
        Some (u\<lparr>utt_volume :=
                (if speechSynthesis s = None then utt_volume u
                 else if isMuted s then volume (voiceSettings s) else 0)\<rparr>))"
proof -
  have 1: "(toggleMute s)\<lparr>isMuted := isMuted s, utterances := utterances s\<rparr> = s"
    by (rule toggleMute_record)
  have 2: "isMuted (toggleMute s) = (\<not> isMuted s)"
    by (simp add: toggleMute_def Let_def set_live_volume_def split: option.split)
  have 3: "voiceSettings (toggleMute s) = voiceSettings s"
    by (simp add: toggleMute_def Let_def set_live_volume_def split: option.split)
  have 4: "utterances (toggleMute s) a = utterances s a" if "speechSynthRef s \<noteq> Some a" for a
    using that by (simp add: toggleMute_def Let_def set_live_volume_def split: option.split)
  have 5: "utterances (toggleMute s) a =
        Some (u\<lparr>utt_volume :=
                (if speechSynthesis s = None then utt_volume u
                 else if isMuted s then volume (voiceSettings s) else 0)\<rparr>)"
    if "speechSynthRef s = Some a \<and> utterances s a = Some u" for a u
    using that by (simp add: toggleMute_def Let_def set_live_volume_def)
  show ?thesis using 1 2 3 4 5 by blast
qed

text \<open>
  Muting while the default settings are being spoken in a noisy room: the utterance
  was handed over with volume 1, is live at address 0, and goes to volume 0; the stored
  volume stays 1.
\<close>

theorem toggleMute_frame_witness:
  "map_option utt_volume (utterances (speak (mounted default_voiceSettings noisy)) 0) = Some 1 \<and>
   map_option utt_volume
     (utterances (toggleMute (speak (mounted default_voiceSettings noisy))) 0) = Some 0 \<and>
   isMuted (toggleMute (speak (mounted default_voiceSettings noisy))) \<and>
   volume (voiceSettings (toggleMute (speak (mounted default_voiceSettings noisy)))) = 1"
proof -
  let ?s = "speak (mounted default_voiceSettings noisy)"
  have h: "speechSynthesis (mounted default_voiceSettings noisy) = Some (call GetVoices one_voice)"
    using mounted_fields by blast
  obtain u where u: "spoken ?s = Some u" and v: "utt_volume u =
       (if isMuted (mounted default_voiceSettings noisy) then 0
        else if adaptToNoise (environmentSettings (mounted default_voiceSettings noisy)) \<and>
                noiseLevel (environmentSettings (mounted default_voiceSettings noisy)) = ''high''
        then min 1 (volume (voiceSettings (mounted default_voiceSettings noisy)) * 1.5)
        else volume (voiceSettings (mounted default_voiceSettings noisy)))"
    using spoken_volume [OF h] by blast
  have v1: "utt_volume u = 1"
    using v by (simp add: mounted_fields noisy_def default_voiceSettings_def)
  have live: "utterances ?s 0 = Some u"
    using spoken_speak [OF h] u by (simp add: mounted_fields)
  have f: "speechSynthRef ?s = Some 0" "\<not> isMuted ?s" "voiceSettings ?s = default_voiceSettings"
    "speechSynthesis ?s \<noteq> None"
    using speak_fields [OF h] by (simp_all add: mounted_fields speak_def Let_def)
  have "utterances (toggleMute ?s) 0 =
        Some (u\<lparr>utt_volume :=
                (if speechSynthesis ?s = None then utt_volume u
                 else if isMuted ?s then volume (voiceSettings ?s) else 0)\<rparr>)"
    using toggleMute_frame [of ?s] f(1) live by blast
  moreover have "isMuted (toggleMute ?s) = (\<not> isMuted ?s)"
    and "voiceSettings (toggleMute ?s) = voiceSettings ?s"
    using toggleMute_frame [of ?s] by blast+
  ultimately show ?thesis
    using f live v1 by (simp add: default_voiceSettings_def)
qed

text \<open>
  C10. When a click on the mute button changes the mute flag, or new props change the
  stored volume, while an utterance is live, the volume of that utterance becomes 0
  if the player is then muted and the stored volume if it is not. In particular, after
  \<open>speak\<close> in a noisy room with adaptation on has handed over \<open>min 1 (volume * 1.5)\<close>,
  muting and unmuting leaves the live utterance at the plain stored volume, with the
  room still noisy and adaptation still on.
\<close>

theorem volume_reassigned:
  "(\<forall>a u. speechSynthRef s = Some a \<and> utterances s a = Some u \<longrightarrow>
      utterances (click_mute s) a =
        Some (u\<lparr>utt_volume := (if isMuted (click_mute s) then 0 else volume (voiceSettings s))\<rparr>)) \<and>
   (\<forall>a u. speechSynthRef s = Some a \<and> utterances s a = Some u \<and>
      volume vs \<noteq> volume (voiceSettings s) \<longrightarrow>
      utterances (receive_props vs env s) a =
        Some (u\<lparr>utt_volume := (if isMuted s then 0 else volume vs)\<rparr>)) \<and>
   (speechSynthesis s \<noteq> None \<and> \<not> isMuted s \<and>
    adaptToNoise (environmentSettings s) \<and> noiseLevel (environmentSettings s) = ''high'' \<longrightarrow>
      (\<exists>u. spoken (speak s) = Some u \<and>
         utt_volume u = min 1 (volume (voiceSettings s) * 1.5) \<and>
         utterances (click_mute (click_mute (speak s))) (next_utterance s) =
           Some (u\<lparr>utt_volume := volume (voiceSettings s)\<rparr>) \<and>
         adaptToNoise (environmentSettings (click_mute (click_mute (speak s)))) \<and>
         noiseLevel (environmentSettings (click_mute (click_mute (speak s)))) = ''high''))"
proof (intro conjI allI impI)
  fix a u
  assume "speechSynthRef s = Some a \<and> utterances s a = Some u"
  then show "utterances (click_mute s) a =
        Some (u\<lparr>utt_volume := (if isMuted (click_mute s) then 0 else volume (voiceSettings s))\<rparr>)"
    using click_mute_live [of s a u] click_mute_fields [of s] by simp
next
  fix a u
  assume "speechSynthRef s = Some a \<and> utterances s a = Some u \<and>
      volume vs \<noteq> volume (voiceSettings s)"
  then show "utterances (receive_props vs env s) a =
        Some (u\<lparr>utt_volume := (if isMuted s then 0 else volume vs)\<rparr>)"
    using receive_props_live [of s a u vs env] by simp
next
  assume h: "speechSynthesis s \<noteq> None \<and> \<not> isMuted s \<and>
    adaptToNoise (environmentSettings s) \<and> noiseLevel (environmentSettings s) = ''high''"
  then obtain synth where synth: "speechSynthesis s = Some synth" by blast
  obtain u where u: "spoken (speak s) = Some u"
    and uv: "utt_volume u =
       (if adaptToNoise (environmentSettings s) \<and> noiseLevel (environmentSettings s) = ''high''
        then min 1 (volume (voiceSettings s) * 1.5) else volume (voiceSettings s))"
    and after: "utterances (click_mute (click_mute (speak s))) (next_utterance s) =
       Some (u\<lparr>utt_volume := volume (voiceSettings s)\<rparr>)"
    and env: "environmentSettings (click_mute (click_mute (speak s))) = environmentSettings s"
    using unmute_discards_boost [OF synth] h by blast
  have "utt_volume u = min 1 (volume (voiceSettings s) * 1.5)"
    using uv h by simp
  then show "\<exists>u. spoken (speak s) = Some u \<and>
         utt_volume u = min 1 (volume (voiceSettings s) * 1.5) \<and>
         utterances (click_mute (click_mute (speak s))) (next_utterance s) =
           Some (u\<lparr>utt_volume := volume (voiceSettings s)\<rparr>) \<and>
         adaptToNoise (environmentSettings (click_mute (click_mute (speak s)))) \<and>
         noiseLevel (environmentSettings (click_mute (click_mute (speak s)))) = ''high''"
    using u after env h by auto
qed

text \<open>
  With the stored volume 0.5 in a noisy room: handed over at 0.75, back at 0.5 after
  a mute and an unmute.
\<close>

theorem volume_reassigned_witness:
  "map_option utt_volume
     (spoken (speak (mounted (default_voiceSettings\<lparr>volume := 0.5\<rparr>) noisy))) = Some 0.75 \<and>
   map_option utt_volume
     (utterances (click_mute (click_mute
        (speak (mounted (default_voiceSettings\<lparr>volume := 0.5\<rparr>) noisy)))) 0) = Some 0.5"
proof -
  let ?s = "mounted (default_voiceSettings\<lparr>volume := 0.5\<rparr>) noisy"
  have h: "speechSynthesis ?s \<noteq> None \<and> \<not> isMuted ?s \<and>
    adaptToNoise (environmentSettings ?s) \<and> noiseLevel (environmentSettings ?s) = ''high''"
    by (simp add: mounted_fields noisy_def)
  obtain u where "spoken (speak ?s) = Some u"
    and "utt_volume u = min 1 (volume (voiceSettings ?s) * 1.5)"
    and "utterances (click_mute (click_mute (speak ?s))) (next_utterance ?s) =
           Some (u\<lparr>utt_volume := volume (voiceSettings ?s)\<rparr>)"
    using volume_reassigned [of ?s] h by blast
  then show ?thesis by (simp add: mounted_fields)
qed

section \<open>Reachable states of the player, and stop\<close>

lemma clear_empties:
  assumes "single_ticker s"
  shows "intervals (clear_progress_interval s) = Map.empty"
proof (rule ext)
  fix h
  show "intervals (clear_progress_interval s) h = None"
  proof (cases "progressIntervalRef s")
    case None
    then show ?thesis using assms
      by (auto simp: clear_progress_interval_def single_ticker_def)
  next
    case (Some h')
    then show ?thesis using assms
      by (cases "h = h'") (auto simp: clear_progress_interval_def single_ticker_def)
  qed
qed

lemma clear_fields:
  "progressIntervalRef (clear_progress_interval s) = progressIntervalRef s \<and>
   speechSynthesis (clear_progress_interval s) = speechSynthesis s \<and>
   progress (clear_progress_interval s) = progress s \<and>
   isPlaying (clear_progress_interval s) = isPlaying s \<and>
   timeouts (clear_progress_interval s) = timeouts s"
  by (simp add: clear_progress_interval_def split: option.split)

lemma silent_available: "speechSynthesis s = Some synth \<Longrightarrow> silent_when_unavailable s"
  by (simp add: silent_when_unavailable_def)

lemma single_ticker_clear: "single_ticker s \<Longrightarrow> single_ticker (clear_progress_interval s)"
  using clear_empties [of s] by (simp add: single_ticker_def)

lemma single_ticker_set:
  assumes "intervals s = Map.empty"
  shows "single_ticker (set_progress_interval cb s)"
  using assms by (simp add: single_ticker_def set_progress_interval_def)

lemma single_ticker_cong:
  "intervals s' = intervals s \<Longrightarrow> progressIntervalRef s' = progressIntervalRef s \<Longrightarrow>
   single_ticker s \<Longrightarrow> single_ticker s'"
  by (simp add: single_ticker_def)

lemma inv_speak: "player_inv s \<Longrightarrow> player_inv (speak s)"
  by (simp add: player_inv_def single_ticker_def silent_when_unavailable_def speak_def Let_def
      split: option.split)

lemma inv_pause: 
  assumes "player_inv s" shows "player_inv (pause s)"
proof (cases "speechSynthesis s")
  case None
  then show ?thesis using assms by (simp add: pause_def)
next
  case (Some synth)
  let ?s1 = "s\<lparr>speechSynthesis := Some (call Pause synth), isPlaying := False\<rparr>"
  have "single_ticker ?s1" using assms by (simp add: player_inv_def single_ticker_def)
  then have "single_ticker (clear_progress_interval ?s1)" by (rule single_ticker_clear)
  moreover have "silent_when_unavailable (clear_progress_interval ?s1)"
    using clear_fields [of ?s1] by (simp add: silent_when_unavailable_def)
  ultimately show ?thesis using Some
    by (simp add: player_inv_def pause_def)
qed

lemma inv_stop:
  assumes "player_inv s" shows "player_inv (stop s)"
proof (cases "speechSynthesis s")
  case None
  then show ?thesis using assms by (simp add: stop_def)
next
  case (Some synth)
  let ?s1 = "s\<lparr>speechSynthesis := Some (call Cancel synth), isPlaying := False, progress := 0\<rparr>"
  have "single_ticker ?s1" using assms by (simp add: player_inv_def single_ticker_def)
  then have "single_ticker (clear_progress_interval ?s1)" by (rule single_ticker_clear)
  moreover have "silent_when_unavailable (clear_progress_interval ?s1)"
    using clear_fields [of ?s1] by (simp add: silent_when_unavailable_def)
  ultimately show ?thesis using Some
    by (simp add: player_inv_def stop_def)
qed

lemma set_fields:
  "speechSynthesis (set_progress_interval cb s) = speechSynthesis s"
  by (simp add: set_progress_interval_def)

lemma inv_resume:
  assumes "player_inv s" shows "player_inv (resume s)"
proof (cases "speechSynthesis s")
  case None
  then show ?thesis using assms by (simp add: resume_def)
next
  case (Some synth)
  let ?s1 = "s\<lparr>speechSynthesis := Some (call Resume synth), isPlaying := True\<rparr>"
  have "single_ticker ?s1" using assms by (simp add: player_inv_def single_ticker_def)
  then have "intervals (clear_progress_interval ?s1) = Map.empty" by (rule clear_empties)
  then have "single_ticker (set_progress_interval cb (clear_progress_interval ?s1))" for cb
    by (rule single_ticker_set)
  moreover have "silent_when_unavailable (set_progress_interval cb (clear_progress_interval ?s1))" for cb
    using clear_fields [of ?s1] by (simp add: set_fields silent_when_unavailable_def)
  ultimately show ?thesis using Some
    by (simp add: player_inv_def resume_def Let_def)
qed

lemma inv_onstart:
  assumes "player_inv s" and "Speak a \<in> set (calls_of s)" shows "player_inv (onstart a s)"
proof (cases "utterances s a")
  case None
  then show ?thesis using assms by (simp add: onstart_def)
next
  case (Some u)
  from assms(2) obtain synth where synth: "speechSynthesis s = Some synth"
    by (cases "speechSynthesis s") (simp_all add: calls_of_def)
  let ?s1 = "s\<lparr>isPlaying := True, progress := 0\<rparr>"
  have "single_ticker ?s1" using assms by (simp add: player_inv_def single_ticker_def)
  then have "intervals (clear_progress_interval ?s1) = Map.empty" by (rule clear_empties)
  then have "single_ticker (set_progress_interval cb (clear_progress_interval ?s1))" for cb
    by (rule single_ticker_set)
  moreover have "silent_when_unavailable (set_progress_interval cb (clear_progress_interval ?s1))" for cb
    using clear_fields [of ?s1] synth by (simp add: set_fields silent_when_unavailable_def)
  ultimately show ?thesis using Some
    by (simp add: player_inv_def onstart_def)
qed

lemma inv_onend:
  assumes "player_inv s" and "Speak a \<in> set (calls_of s)" shows "player_inv (onend s)"
proof -
  from assms(2) obtain synth where synth: "speechSynthesis s = Some synth"
    by (cases "speechSynthesis s") (simp_all add: calls_of_def)
  let ?s1 = "s\<lparr>isPlaying := False, progress := 100\<rparr>"
  have "single_ticker ?s1" using assms by (simp add: player_inv_def single_ticker_def)
  then have "single_ticker (clear_progress_interval ?s1)" by (rule single_ticker_clear)
  moreover have "silent_when_unavailable (clear_progress_interval ?s1)"
    using clear_fields [of ?s1] synth by (simp add: silent_when_unavailable_def)
  ultimately show ?thesis
    by (simp add: player_inv_def onend_def)
qed

lemma inv_onerror:
  assumes "player_inv s" shows "player_inv (onerror s)"
proof -
  let ?s1 = "s\<lparr>isPlaying := False\<rparr>"
  have "single_ticker ?s1" using assms by (simp add: player_inv_def single_ticker_def)
  then have e: "intervals (clear_progress_interval ?s1) = Map.empty" and
    t: "single_ticker (clear_progress_interval ?s1)"
    by (rule clear_empties, rule single_ticker_clear)
  have "silent_when_unavailable (clear_progress_interval ?s1)"
    using assms clear_fields [of ?s1] e
    by (simp add: player_inv_def silent_when_unavailable_def)
  then show ?thesis using t by (simp add: player_inv_def onerror_def)
qed

lemma inv_cleanup:
  assumes "player_inv s" shows "player_inv (cleanup s)"
proof -
  have e: "intervals (clear_progress_interval s) = Map.empty"
    and t: "single_ticker (clear_progress_interval s)"
    using assms by (simp_all add: player_inv_def clear_empties single_ticker_clear)
  have sl: "silent_when_unavailable (clear_progress_interval s)"
    using assms clear_fields [of s] e by (simp add: player_inv_def silent_when_unavailable_def)
  show ?thesis
    using t sl
    by (simp add: cleanup_def Let_def player_inv_def single_ticker_def silent_when_unavailable_def
        split: option.split)
qed

lemma inv_weak:
  assumes "player_inv s"
    and "intervals s' = intervals s" and "progressIntervalRef s' = progressIntervalRef s"
    and "speechSynthesis s' = speechSynthesis s" and "progress s' = progress s"
    and "isPlaying s' = isPlaying s"
  shows "player_inv s'"
  using assms by (simp add: player_inv_def single_ticker_def silent_when_unavailable_def)

lemma set_live_volume_fields:
  "intervals (set_live_volume v s) = intervals s \<and>
   progressIntervalRef (set_live_volume v s) = progressIntervalRef s \<and>
   speechSynthesis (set_live_volume v s) = speechSynthesis s \<and>
   progress (set_live_volume v s) = progress s \<and>
   isPlaying (set_live_volume v s) = isPlaying s"
  by (simp add: set_live_volume_def split: option.split)

lemma inv_set_live_volume: "player_inv s \<Longrightarrow> player_inv (set_live_volume v s)"
  using set_live_volume_fields [of v s] by (auto intro: inv_weak)

lemma inv_run_effects: "player_inv s \<Longrightarrow> player_inv (run_effects prev s)"
  by (simp add: run_effects_def volume_effect_def inv_set_live_volume)

lemma inv_toggleMute: "player_inv s \<Longrightarrow> player_inv (toggleMute s)"
proof -
  assume a: "player_inv s"
  have "player_inv (s\<lparr>isMuted := b\<rparr>)" for b
    using a by (rule inv_weak) simp_all
  then show ?thesis by (simp add: toggleMute_def Let_def inv_set_live_volume)
qed

lemma inv_click_mute: "player_inv s \<Longrightarrow> player_inv (click_mute s)"
  by (simp add: click_mute_def inv_run_effects inv_toggleMute)

lemma inv_receive_props: "player_inv s \<Longrightarrow> player_inv (receive_props vs env s)"
proof -
  assume a: "player_inv s"
  have "player_inv (s\<lparr>voiceSettings := vs, environmentSettings := env\<rparr>)"
    using a by (rule inv_weak) simp_all
  then show ?thesis by (simp add: receive_props_def inv_run_effects)
qed

lemma inv_toggleListening: "player_inv s \<Longrightarrow> player_inv (toggleListening s)"
  by (erule inv_weak) (simp_all add: toggleListening_def set_timeout_def Let_def)

lemma inv_setText: "player_inv s \<Longrightarrow> player_inv (setText t s)"
  by (erule inv_weak) (simp_all add: setText_def)

lemma inv_run_timeout: 
  assumes "player_inv s" shows "player_inv (run_timeout cb s)"
proof (cases cb)
  case (InterruptionTimeout playing)
  have "player_inv (set_timeout 1500 ProcessingTimeout ((pause s)\<lparr>interruptionDetected := True\<rparr>))"
    using inv_pause [OF assms] by (rule inv_weak) (simp_all add: set_timeout_def)
  then have "player_inv (if playing
                then set_timeout 1500 ProcessingTimeout ((pause s)\<lparr>interruptionDetected := True\<rparr>)
                else s)" using assms by simp
  then have "player_inv ((if playing
                then set_timeout 1500 ProcessingTimeout ((pause s)\<lparr>interruptionDetected := True\<rparr>)
                else s)\<lparr>isListening := False\<rparr>)"
    by (rule inv_weak) simp_all
  then show ?thesis using InterruptionTimeout by (simp add: Let_def)
next
  case ProcessingTimeout
  then show ?thesis using assms by (auto intro: inv_weak)
qed

lemma inv_fire_timeout: 
  assumes "player_inv s" shows "player_inv (fire_timeout i s)"
proof -
  have "player_inv (s\<lparr>timeouts := ts\<rparr>)" for ts
    using assms by (rule inv_weak) simp_all
  then show ?thesis using assms by (simp add: fire_timeout_def inv_run_timeout)
qed

lemma tick_progress:
  assumes "tick cb s = Some s'"
  shows "\<exists>p. s' = s\<lparr>progress := p\<rparr>"
  using assms by (auto simp: tick_def Let_def split: option.splits if_splits)

lemma inv_tick:
  assumes "player_inv s" and "intervals s h = Some cb"
  shows "player_inv (s\<lparr>progress := p\<rparr>)"
proof -
  obtain synth where synth: "speechSynthesis s = Some synth"
    using assms by (cases "speechSynthesis s") (auto simp: player_inv_def silent_when_unavailable_def)
  then show ?thesis using assms(1)
    by (simp add: player_inv_def single_ticker_def silent_when_unavailable_def)
qed

lemma reachable_tick:
  assumes "reachable s" and "intervals s h = Some cb" and "tick cb s = Some s'"
  shows "reachable s'"
  using tick_progress [OF assms(3)] r_tick [OF assms(1,2)] by auto

lemma inv_mount: "player_inv (mount_effect (initial_player vs env synth))"
  by (simp add: player_inv_def single_ticker_def silent_when_unavailable_def mount_effect_def
      initial_player_def split: option.split)

lemma reachable_inv: "reachable s \<Longrightarrow> player_inv s"
proof (induction rule: reachable.induct)
  case (r_mount vs env synth)
  show ?case by (rule inv_mount)
next
  case (r_tick s h cb p)
  then show ?case by (blast intro: inv_tick)
qed (simp_all add: inv_speak inv_pause inv_resume inv_stop inv_click_mute inv_toggleListening
      inv_setText inv_receive_props inv_fire_timeout inv_onstart inv_onend inv_onerror inv_cleanup)

lemma queued_cancel: "queued (cs @ [Cancel]) = []"
  by (simp add: queued_def)

text \<open>
  C5. In every reachable state of the player, whatever the progress was, after \<open>stop\<close>
  the progress is 0, the player is not playing (its status is \<open>Idle\<close>), no interval is
  active any more, and the speech service holds no utterance that was not cancelled.
\<close>

theorem stop_resets:
  assumes "reachable s"
  shows "progress (stop s) = 0 \<and> \<not> isPlaying (stop s) \<and> status (stop s) = Idle \<and>
         intervals (stop s) = Map.empty \<and> queued (calls_of (stop s)) = []"
proof (cases "speechSynthesis s")
  case None
  have "player_inv s" using assms by (rule reachable_inv)
  then have "progress s = 0 \<and> \<not> isPlaying s \<and> intervals s = Map.empty"
    using None by (simp add: player_inv_def silent_when_unavailable_def)
  then show ?thesis using None
    by (simp add: stop_def status_def calls_of_def queued_def)
next
  case (Some synth)
  let ?s1 = "s\<lparr>speechSynthesis := Some (call Cancel synth), isPlaying := False, progress := 0\<rparr>"
  have "player_inv s" using assms by (rule reachable_inv)
  then have "single_ticker ?s1" by (simp add: player_inv_def single_ticker_def)
  then have "intervals (clear_progress_interval ?s1) = Map.empty" by (rule clear_empties)
  moreover have "stop s = clear_progress_interval ?s1" using Some by (simp add: stop_def)
  ultimately show ?thesis
    using clear_fields [of ?s1]
    by (simp add: status_def calls_of_def call_def queued_cancel)
qed


section \<open>Properties of pause, resume and the interruption loop\<close>

lemma pause_frame:
  "(pause s)\<lparr>speechSynthesis := speechSynthesis s, intervals := intervals s,
             isPlaying := isPlaying s\<rparr> = s"
  by (simp add: pause_def clear_progress_interval_def split: option.split)

lemma pause_not_playing: "\<not> isPlaying (pause s) \<or> speechSynthesis s = None"
  by (simp add: pause_def clear_progress_interval_def split: option.split)

lemma pause_idle:
  assumes "\<not> isPlaying s"
  shows "(pause s)\<lparr>speechSynthesis := speechSynthesis s, intervals := intervals s\<rparr> = s"
  using assms by (simp add: pause_def clear_progress_interval_def split: option.split)

lemma status_pause:
  assumes "status s \<noteq> Speaking"
  shows "status (pause s) = status s"
  using assms by (simp add: status_def pause_def clear_progress_interval_def split: option.split if_splits)

lemma resume_speaking:
  assumes "speechSynthesis s = Some synth"
  shows "status (resume s) = Speaking"
  using assms by (simp add: status_def resume_def Let_def set_progress_interval_def clear_progress_interval_def split: option.split)

text \<open>
  Outside \<open>Speaking\<close>, \<open>pause\<close> keeps the status, the progress and every other field of
  the player, but it has no test of the status: with the speech service present it
  always sends \<open>pause()\<close> to the service.
\<close>

lemma pause_keeps_player:
  assumes "status s \<noteq> Speaking"
  shows "status (pause s) = status s \<and> progress (pause s) = progress s \<and>
         (pause s)\<lparr>speechSynthesis := speechSynthesis s, intervals := intervals s\<rparr> = s"
proof -
  have np: "\<not> isPlaying s" using assms by (simp add: status_def split: if_splits)
  have "progress (pause s) = progress s"
    by (simp add: pause_def clear_progress_interval_def split: option.split)
  then show ?thesis using status_pause [OF assms] pause_idle [OF np] by simp
qed

lemma toggleListening_starts:
  assumes "\<not> isListening s" and "isPlaying s"
  shows "toggleListening s =
     s\<lparr>isListening := True, timeouts := timeouts s @ [(2000, InterruptionTimeout True)]\<rparr>"
  using assms by (simp add: toggleListening_def set_timeout_def Let_def)

lemma interruption_fires:
  "run_timeout (InterruptionTimeout True) s =
     (pause s)\<lparr>interruptionDetected := True,
               timeouts := timeouts s @ [(1500, ProcessingTimeout)], isListening := False\<rparr>"
  by (simp add: Let_def set_timeout_def pause_def clear_progress_interval_def split: option.split)

lemma pause_playing:
  assumes "speechSynthesis s = Some synth"
  shows "\<not> isPlaying (pause s) \<and> calls_of (pause s) = calls synth @ [Pause] \<and>
         progress (pause s) = progress s"
  using assms by (simp add: pause_def clear_progress_interval_def calls_of_def call_def split: option.split)

text \<open>
  C6. If \<open>toggleListening\<close> runs while the player is not listening and is playing, the
  player listens and a timeout of 2000 ms is pending whose callback holds
  \<open>isPlaying = true\<close>. When that callback runs in a state \<open>s2\<close> where speech is still
  playing, the state becomes that of \<open>pause\<close>, with \<open>interruptionDetected\<close> set, listening
  ended and a timeout of 1500 ms pending; with the speech service present the player
  is then not playing and the service has been asked to pause. When the second
  callback runs, \<open>interruptionDetected\<close> is cleared, listening is ended and the follow-up
  sentence is appended to the text.
\<close>

theorem interruption_loop:
  assumes "\<not> isListening s" and "isPlaying s"
  shows "isListening (toggleListening s) \<and>
     timeouts (toggleListening s) = timeouts s @ [(2000, InterruptionTimeout True)] \<and>
     (\<forall>s2. isPlaying s2 \<longrightarrow>
        run_timeout (InterruptionTimeout True) s2 =
          (pause s2)\<lparr>interruptionDetected := True,
                     timeouts := timeouts s2 @ [(1500, ProcessingTimeout)],
                     isListening := False\<rparr> \<and>
        interruptionDetected (run_timeout (InterruptionTimeout True) s2) \<and>
        (\<forall>synth. speechSynthesis s2 = Some synth \<longrightarrow>
           \<not> isPlaying (run_timeout (InterruptionTimeout True) s2) \<and>
           calls_of (run_timeout (InterruptionTimeout True) s2) = calls synth @ [Pause])) \<and>
     (\<forall>s4. \<not> interruptionDetected (run_timeout ProcessingTimeout s4) \<and>
        \<not> isListening (run_timeout ProcessingTimeout s4) \<and>
        text' (run_timeout ProcessingTimeout s4) = text' s4 @ follow_up)"
proof (intro conjI allI impI)
  show "isListening (toggleListening s)"
    using toggleListening_starts [OF assms] by simp
  show "timeouts (toggleListening s) = timeouts s @ [(2000, InterruptionTimeout True)]"
    using toggleListening_starts [OF assms] by simp
next
  fix s2 :: tts_player
  show "run_timeout (InterruptionTimeout True) s2 =
          (pause s2)\<lparr>interruptionDetected := True,
                     timeouts := timeouts s2 @ [(1500, ProcessingTimeout)],
                     isListening := False\<rparr>"
    by (rule interruption_fires)
  show "interruptionDetected (run_timeout (InterruptionTimeout True) s2)"
    by (subst interruption_fires) simp
next
  fix s2 :: tts_player and synth
  assume "speechSynthesis s2 = Some synth"
  then have p: "\<not> isPlaying (pause s2)" "calls_of (pause s2) = calls synth @ [Pause]"
    using pause_playing by blast+
  show "\<not> isPlaying (run_timeout (InterruptionTimeout True) s2)"
    using p(1) by (subst interruption_fires) simp
  show "calls_of (run_timeout (InterruptionTimeout True) s2) = calls synth @ [Pause]"
    using p(2) by (subst interruption_fires) (simp add: calls_of_def)
next
  fix s4 :: tts_player
  show "\<not> interruptionDetected (run_timeout ProcessingTimeout s4)" by simp
  show "\<not> isListening (run_timeout ProcessingTimeout s4)" by simp
  show "text' (run_timeout ProcessingTimeout s4) = text' s4 @ follow_up" by simp
qed

section \<open>Concrete runs of the player\<close>

lemma speak_calls:
  assumes "speechSynthesis s = Some synth"
  shows "calls_of (speak s) = calls synth @ [Cancel, GetVoices, Speak (next_utterance s)]"
  using assms by (simp add: speak_def calls_of_def call_def Let_def)

lemma reachable_mounted: "reachable (mounted vs env)"
  unfolding mounted_def by (rule r_mount)

lemma reachable_started: "reachable (onstart 0 (speak (mounted vs env)))"
proof -
  have h: "speechSynthesis (mounted vs env) = Some (call GetVoices one_voice)"
    using mounted_fields by blast
  have "Speak 0 \<in> set (calls_of (speak (mounted vs env)))"
    using speak_calls [OF h] by (simp add: mounted_fields)
  then show ?thesis
    using r_onstart [OF r_speak [OF reachable_mounted]] by blast
qed

lemma onstart_calls: "calls_of (onstart a s) = calls_of s"
  by (simp add: onstart_def calls_of_def set_progress_interval_def clear_progress_interval_def
      split: option.split)

lemma fire_single:
  assumes "timeouts t = [(delay, cb)]"
  shows "fire_timeout 0 t = run_timeout cb (t\<lparr>timeouts := []\<rparr>)"
  using assms by (simp add: fire_timeout_def del: run_timeout.simps)

text \<open>
  An utterance is spoken to its end, which leaves the progress at 100; then \<open>stop\<close>.
\<close>

theorem stop_resets_witness:
  "progress (onend (onstart 0 (speak (mounted default_voiceSettings noisy)))) = 100 \<and>
   progress (stop (onend (onstart 0 (speak (mounted default_voiceSettings noisy))))) = 0 \<and>
   \<not> isPlaying (stop (onend (onstart 0 (speak (mounted default_voiceSettings noisy))))) \<and>
   status (stop (onend (onstart 0 (speak (mounted default_voiceSettings noisy))))) = Idle \<and>
   intervals (stop (onend (onstart 0 (speak (mounted default_voiceSettings noisy))))) = Map.empty \<and>
   queued (calls_of (stop (onend (onstart 0 (speak (mounted default_voiceSettings noisy)))))) = []"
proof -
  let ?s = "onstart 0 (speak (mounted default_voiceSettings noisy))"
  have h: "speechSynthesis (mounted default_voiceSettings noisy) = Some (call GetVoices one_voice)"
    using mounted_fields by blast
  have "Speak 0 \<in> set (calls_of ?s)"
    using speak_calls [OF h] by (simp add: onstart_calls mounted_fields)
  then have r: "reachable (onend ?s)"
    using r_onend [OF reachable_started] by blast
  have "progress (onend ?s) = 100"
    by (simp add: onend_def clear_progress_interval_def split: option.split)
  then show ?thesis using stop_resets [OF r] by simp
qed

text \<open>
  The microphone button is clicked while the first utterance is playing, and the two
  timeouts fire in turn.
\<close>

theorem interruption_loop_witness:
  "isListening (toggleListening (onstart 0 (speak (mounted default_voiceSettings noisy)))) \<and>
   timeouts (toggleListening (onstart 0 (speak (mounted default_voiceSettings noisy))))
     = [(2000, InterruptionTimeout True)] \<and>
   interruptionDetected
     (fire_timeout 0 (toggleListening (onstart 0 (speak (mounted default_voiceSettings noisy))))) \<and>
   \<not> isPlaying
     (fire_timeout 0 (toggleListening (onstart 0 (speak (mounted default_voiceSettings noisy))))) \<and>
   timeouts
     (fire_timeout 0 (toggleListening (onstart 0 (speak (mounted default_voiceSettings noisy)))))
     = [(1500, ProcessingTimeout)] \<and>
   text' (fire_timeout 0 (fire_timeout 0
     (toggleListening (onstart 0 (speak (mounted default_voiceSettings noisy))))))
     = initial_text @ follow_up \<and>
   \<not> interruptionDetected (fire_timeout 0 (fire_timeout 0
     (toggleListening (onstart 0 (speak (mounted default_voiceSettings noisy)))))) \<and>
   \<not> isListening (fire_timeout 0 (fire_timeout 0
     (toggleListening (onstart 0 (speak (mounted default_voiceSettings noisy))))))"
proof -
  let ?s = "onstart 0 (speak (mounted default_voiceSettings noisy))"
  have h: "speechSynthesis (mounted default_voiceSettings noisy) = Some (call GetVoices one_voice)"
    using mounted_fields by blast
  obtain u where u: "utterances (speak (mounted default_voiceSettings noisy)) 0 = Some u"
    using speak_stored_volume [OF h] by (auto simp: mounted_fields)
  have s: "\<not> isListening ?s" "isPlaying ?s" "timeouts ?s = []" "text' ?s = initial_text"
    "speechSynthesis ?s \<noteq> None"
    using u h
    by (simp_all add: onstart_def set_progress_interval_def clear_progress_interval_def
        speak_def Let_def mounted_def mount_effect_def initial_player_def split: option.split)
  let ?t = "toggleListening ?s"
  have t: "isListening ?t" "timeouts ?t = [(2000, InterruptionTimeout True)]"
    using interruption_loop [OF s(1,2)] s(3) by simp_all
  have tt: "text' ?t = initial_text" "speechSynthesis ?t \<noteq> None" "isPlaying ?t"
    using s by (simp_all add: toggleListening_def set_timeout_def Let_def)
  let ?tr = "?t\<lparr>timeouts := []\<rparr>"
  have f1: "fire_timeout 0 ?t = run_timeout (InterruptionTimeout True) ?tr"
    using t(2) by (rule fire_single)
  obtain synth where sy: "speechSynthesis ?tr = Some synth" using tt(2) by auto
  have p0: "isPlaying ?tr" using tt(3) by simp
  have r1: "run_timeout (InterruptionTimeout True) ?tr =
          (pause ?tr)\<lparr>interruptionDetected := True,
                     timeouts := timeouts ?tr @ [(1500, ProcessingTimeout)],
                     isListening := False\<rparr>"
    and r2: "\<not> isPlaying (run_timeout (InterruptionTimeout True) ?tr)"
    using interruption_loop [OF s(1,2)] p0 sy by blast+
  let ?f = "fire_timeout 0 ?t"
  have f: "interruptionDetected ?f" "\<not> isPlaying ?f" "timeouts ?f = [(1500, ProcessingTimeout)]"
    using r2 by (simp_all add: f1 r1 del: run_timeout.simps)
  have ftext: "text' ?f = initial_text"
    using tt(1)
    by (simp add: f1 r1 pause_def clear_progress_interval_def del: run_timeout.simps
        split: option.split)
  let ?fr = "?f\<lparr>timeouts := []\<rparr>"
  have f2: "fire_timeout 0 ?f = run_timeout ProcessingTimeout ?fr"
    using f(3) by (rule fire_single)
  have "\<not> interruptionDetected (run_timeout ProcessingTimeout ?fr) \<and>
        \<not> isListening (run_timeout ProcessingTimeout ?fr) \<and>
        text' (run_timeout ProcessingTimeout ?fr) = text' ?fr @ follow_up"
    using interruption_loop [OF s(1,2)] by blast
  then have g: "\<not> interruptionDetected (fire_timeout 0 ?f)" "\<not> isListening (fire_timeout 0 ?f)"
    "text' (fire_timeout 0 ?f) = initial_text @ follow_up"
    using ftext by (simp_all add: f2 del: run_timeout.simps)
  show ?thesis using t f g by simp
qed

subsection \<open>The interruption timeout after the speech has stopped\<close>

text \<open>
  The 2000 ms callback tests the \<open>isPlaying\<close> that its closure captured when the
  microphone button was clicked. If the player is no longer playing when it runs, it
  calls \<open>pause\<close> all the same, and \<open>pause\<close> sends \<open>pause()\<close> to the speech service while
  the status stays what it was.
\<close>

lemma stale_interruption:
  assumes "timeouts s = [(2000, InterruptionTimeout True)]"
    and "speechSynthesis s = Some synth" and "\<not> isPlaying s"
  shows "fire_timeout 0 s =
           (pause (s\<lparr>timeouts := []\<rparr>))\<lparr>interruptionDetected := True,
              timeouts := [(1500, ProcessingTimeout)], isListening := False\<rparr>"
    and "calls_of (fire_timeout 0 s) = calls synth @ [Pause]"
    and "status (fire_timeout 0 s) = status s"
proof -
  let ?r = "s\<lparr>timeouts := []\<rparr>"
  have f: "fire_timeout 0 s = run_timeout (InterruptionTimeout True) ?r"
    using assms(1) by (rule fire_single)
  have r: "run_timeout (InterruptionTimeout True) ?r =
     (pause ?r)\<lparr>interruptionDetected := True,
               timeouts := timeouts ?r @ [(1500, ProcessingTimeout)], isListening := False\<rparr>"
    by (rule interruption_fires)
  have sy: "speechSynthesis ?r = Some synth" using assms(2) by simp
  have c: "calls_of (pause ?r) = calls synth @ [Pause]"
    using pause_playing [OF sy] by blast
  have "status ?r \<noteq> Speaking" using assms(3) by (simp add: status_def)
  then have st: "status (pause ?r) = status ?r" by (rule status_pause)
  have st': "status (fire_timeout 0 s) = status (pause ?r)"
    by (simp only: f r) (simp add: status_def)
  have c': "calls_of (fire_timeout 0 s) = calls_of (pause ?r)"
    by (simp only: f r) (simp add: calls_of_def)
  show "fire_timeout 0 s =
           (pause ?r)\<lparr>interruptionDetected := True,
              timeouts := [(1500, ProcessingTimeout)], isListening := False\<rparr>"
    using f r by simp
  show "calls_of (fire_timeout 0 s) = calls synth @ [Pause]" using c c' by simp
  show "status (fire_timeout 0 s) = status s" using st st' by (simp add: status_def)
qed

text \<open>
  C2. \<open>pause\<close> does not test the status, and it does run outside \<open>Speaking\<close>. The
  microphone button is clicked while the first utterance is playing and Stop is
  clicked before the 2000 ms are over: the player is \<open>Idle\<close> with the timeout still
  pending, and when the timeout fires the speech service is sent \<open>pause()\<close> after the
  \<open>cancel()\<close> of Stop. If Speak is clicked again and the timeout fires before the new
  utterance has started, the player is \<open>Idle\<close>, utterance 1 is in the queue of the
  service, and the service is sent \<open>pause()\<close> for it.
\<close>

theorem stale_timer_pause:
  "status (stop (toggleListening (onstart 0
      (speak (mounted default_voiceSettings default_environmentSettings))))) = Idle \<and>
   timeouts (stop (toggleListening (onstart 0
      (speak (mounted default_voiceSettings default_environmentSettings)))))
     = [(2000, InterruptionTimeout True)] \<and>
   calls_of (stop (toggleListening (onstart 0
      (speak (mounted default_voiceSettings default_environmentSettings)))))
     = [GetVoices, Cancel, GetVoices, Speak 0, Cancel] \<and>
   calls_of (fire_timeout 0 (stop (toggleListening (onstart 0
      (speak (mounted default_voiceSettings default_environmentSettings))))))
     = [GetVoices, Cancel, GetVoices, Speak 0, Cancel, Pause] \<and>
   status (speak (stop (toggleListening (onstart 0
      (speak (mounted default_voiceSettings default_environmentSettings)))))) = Idle \<and>
   queued (calls_of (speak (stop (toggleListening (onstart 0
      (speak (mounted default_voiceSettings default_environmentSettings))))))) = [1] \<and>
   calls_of (fire_timeout 0 (speak (stop (toggleListening (onstart 0
      (speak (mounted default_voiceSettings default_environmentSettings)))))))
     = [GetVoices, Cancel, GetVoices, Speak 0, Cancel, Cancel, GetVoices, Speak 1, Pause]"
proof -
  let ?m = "mounted default_voiceSettings default_environmentSettings"
  let ?p = "onstart 0 (speak ?m)"
  have h: "speechSynthesis ?m = Some (call GetVoices one_voice)"
    using mounted_fields by blast
  obtain u where u: "utterances (speak ?m) 0 = Some u"
    using speak_stored_volume [OF h] by (auto simp: mounted_fields)
  have p: "\<not> isListening ?p" "isPlaying ?p" "timeouts ?p = []"
    "calls_of ?p = [GetVoices, Cancel, GetVoices, Speak 0]"
    using u h speak_calls [OF h]
    by (simp_all add: onstart_calls mounted_fields one_voice_def call_def)
       (simp_all add: onstart_def set_progress_interval_def clear_progress_interval_def
        speak_def Let_def mounted_def mount_effect_def initial_player_def split: option.split)
  let ?l = "toggleListening ?p"
  have l: "timeouts ?l = [(2000, InterruptionTimeout True)]"
    "calls_of ?l = [GetVoices, Cancel, GetVoices, Speak 0]"
    using toggleListening_starts [OF p(1,2)] p(3,4) by (simp_all add: calls_of_def)
  obtain sy where sy: "speechSynthesis ?l = Some sy" "calls sy = [GetVoices, Cancel, GetVoices, Speak 0]"
    using l(2) by (cases "speechSynthesis ?l") (simp_all add: calls_of_def)
  let ?a = "stop ?l"
  have a: "timeouts ?a = [(2000, InterruptionTimeout True)]" "\<not> isPlaying ?a" "progress ?a = 0"
    "speechSynthesis ?a = Some (call Cancel sy)" "next_utterance ?a = 1" "\<not> isMuted ?a"
    using l(1) sy(1) u h
    by (simp_all add: stop_def clear_progress_interval_def split: option.split)
       (simp_all add: toggleListening_def set_timeout_def onstart_def set_progress_interval_def
         clear_progress_interval_def speak_def Let_def mounted_fields split: option.split)
  have a_calls: "calls_of ?a = [GetVoices, Cancel, GetVoices, Speak 0, Cancel]"
    using a(4) sy(2) by (simp add: calls_of_def call_def)
  have a_status: "status ?a = Idle" using a(2,3) by (simp add: status_def)
  have a_fire: "calls_of (fire_timeout 0 ?a) = [GetVoices, Cancel, GetVoices, Speak 0, Cancel, Pause]"
    using stale_interruption(2) [OF a(1) a(4) a(2)] sy(2) by (simp add: call_def)
  let ?b = "speak ?a"
  have b: "timeouts ?b = [(2000, InterruptionTimeout True)]" "\<not> isPlaying ?b" "progress ?b = 0"
    using a(1,2,3,4) by (simp_all add: speak_def Let_def)
  have b_calls: "calls_of ?b = [GetVoices, Cancel, GetVoices, Speak 0, Cancel, Cancel, GetVoices, Speak 1]"
    using speak_calls [OF a(4)] a(5) sy(2) by (simp add: call_def)
  then obtain sb where sb: "speechSynthesis ?b = Some sb"
    "calls sb = [GetVoices, Cancel, GetVoices, Speak 0, Cancel, Cancel, GetVoices, Speak 1]"
    by (cases "speechSynthesis ?b") (simp_all add: calls_of_def)
  have b_status: "status ?b = Idle" using b(2,3) by (simp add: status_def)
  have b_queue: "queued (calls_of ?b) = [1]" by (simp add: b_calls queued_def)
  have b_fire: "calls_of (fire_timeout 0 ?b) =
      [GetVoices, Cancel, GetVoices, Speak 0, Cancel, Cancel, GetVoices, Speak 1, Pause]"
    using stale_interruption(2) [OF b(1) sb(1) b(2)] sb(2) by simp
  show ?thesis using a_status a(1) a_calls a_fire b_status b_queue b_fire by simp
qed

section \<open>Properties of the gesture monitor\<close>

lemma no_loop_cong:
  assumes "no_loop s"
    and "cameraPermission s' = cameraPermission s" and "videoRef s' = videoRef s"
    and "canvasRef s' = canvasRef s" and "frames s' = frames s"
    and "animationFrameRef s' = animationFrameRef s"
  shows "no_loop s'"
  using assms by (simp add: no_loop_def)

lemma no_loop_start: "no_loop s \<Longrightarrow> startGestureDetection en fi s = s"
  by (simp add: no_loop_def startGestureDetection_def)

lemma no_loop_stop: "no_loop s \<Longrightarrow> no_loop (stopGestureDetection s)"
  by (simp add: no_loop_def stopGestureDetection_def cancel_frame_def)

lemma no_loop_startCamera: "no_loop s \<Longrightarrow> no_loop (startCamera s)"
  by (simp add: no_loop_def startCamera_def)

lemma no_loop_effect: "no_loop s \<Longrightarrow> no_loop (toggle_effect fi s)"
  by (simp add: toggle_effect_def no_loop_start no_loop_stop no_loop_startCamera)

lemma no_loop_attach: "no_loop s \<Longrightarrow> attach_refs s = s"
  by (simp add: no_loop_def attach_refs_def)

lemma no_loop_render: "no_loop s \<Longrightarrow> no_loop (render fi prev s)"
  by (simp add: render_def Let_def no_loop_attach no_loop_effect)

lemma no_loop_resolved: "no_loop s \<Longrightarrow> no_loop (camera_resolved stream en fi s)"
  by (simp add: no_loop_def camera_resolved_def Let_def)

lemma no_loop_rejected: "no_loop s \<Longrightarrow> no_loop (camera_rejected s)"
  by (simp add: no_loop_def camera_rejected_def)

lemma no_loop_mount: "no_loop (gesture_mount en fi)"
proof -
  have "no_loop (attach_refs
          \<lparr>enabled = en, cameraPermission = Pending, detectedGesture = None,
           gestureConfidence = 0, videoRef = False, canvasRef = False, streamRef = None,
           animationFrameRef = None, frames = [], next_frame = 0, camera_requests = [],
           reported = [], clear_timeouts = 0\<rparr>)"
    by (simp add: no_loop_def attach_refs_def)
  then show ?thesis unfolding gesture_mount_def by (rule no_loop_effect)
qed

lemma no_loop_step:
  assumes "no_loop s"
  shows "no_loop (gesture_step fi ev s)"
proof (cases ev)
  case Toggle
  have "no_loop (s\<lparr>enabled := \<not> enabled s\<rparr>)" using assms by (simp add: no_loop_def)
  then show ?thesis using Toggle by (simp add: no_loop_render)
next
  case SetupCamera
  then show ?thesis using assms by (simp add: no_loop_startCamera)
next
  case (CameraGranted stream)
  show ?thesis
  proof (cases "camera_requests s")
    case Nil
    then show ?thesis using CameraGranted assms by simp
  next
    case (Cons en rest)
    have "no_loop (s\<lparr>camera_requests := rest\<rparr>)" using assms by (simp add: no_loop_def)
    then show ?thesis using CameraGranted Cons by (simp add: no_loop_render no_loop_resolved)
  qed
next
  case CameraRefused
  show ?thesis
  proof (cases "camera_requests s")
    case Nil
    then show ?thesis using CameraRefused assms by simp
  next
    case (Cons en rest)
    have "no_loop (s\<lparr>camera_requests := rest\<rparr>)" using assms by (simp add: no_loop_def)
    then show ?thesis using CameraRefused Cons by (simp add: no_loop_render no_loop_rejected)
  qed
next
  case (Frame h)
  then show ?thesis using assms by (simp add: no_loop_def)
next
  case ClearGesture
  then show ?thesis using assms by (simp add: no_loop_def)
next
  case Unmount
  then show ?thesis using assms by (simp add: no_loop_def stopCamera_def cancel_frame_def)
qed

text \<open>
  The two functions by themselves: with both refs set, each call of
  \<open>startGestureDetection\<close> leaves one more frame pending, and \<open>stopGestureDetection\<close>
  cancels the one frame that \<open>animationFrameRef\<close> holds.
\<close>

lemma start_adds_frame:
  assumes "videoRef s" and "canvasRef s"
  shows "frames (startGestureDetection True fi s) = frames s @ [next_frame s] \<and>
         animationFrameRef (startGestureDetection True fi s) = Some (next_frame s) \<and>
         videoRef (startGestureDetection True fi s) \<and> canvasRef (startGestureDetection True fi s)"
  using assms
  by (simp add: startGestureDetection_def detectGestures_def request_frame_def
      simulateGestureDetection_def split: option.split prod.split)

lemma stop_cancels_frame:
  assumes "animationFrameRef s = Some h"
  shows "frames (stopGestureDetection s) = removeAll h (frames s) \<and>
         animationFrameRef (stopGestureDetection s) = None"
  using assms by (simp add: stopGestureDetection_def cancel_frame_def)

lemma no_loop_run: "no_loop s \<Longrightarrow> no_loop (gesture_run s evs)"
  by (induction s evs rule: gesture_run.induct) (simp_all add: no_loop_step)


text \<open>
  C7. Whatever happens to a mounted gesture controller, no animation frame callback
  is ever pending and the camera permission never becomes \<open>granted\<close>: \<open>startCamera\<close>
  sets the permission only if \<open>videoRef.current\<close> is set, and the \<open>video\<close> element is
  rendered only once the permission is \<open>granted\<close>. So enabling gesture control, with
  camera access given, starts no sampling loop, and neither does a re-enable.
\<close>

theorem gesture_loop_never_starts:
  "frames (gesture_run (gesture_mount en fi) evs) = [] \<and>
   cameraPermission (gesture_run (gesture_mount en fi) evs) \<noteq> Granted"
proof -
  have "no_loop (gesture_run (gesture_mount en fi) evs)"
    using no_loop_mount by (rule no_loop_run)
  then show ?thesis by (simp add: no_loop_def)
qed

text \<open>
  Gesture control is switched on, the user grants camera access, and the control is
  switched off and on again: the stream is held, the permission is still pending, and
  no frame is pending.
\<close>

theorem gesture_loop_never_starts_witness:
  "frames (gesture_run (gesture_mount False eager)
     [(eager, Toggle), (eager, CameraGranted 1), (eager, Toggle), (eager, Toggle)]) = [] \<and>
   cameraPermission (gesture_run (gesture_mount False eager)
     [(eager, Toggle), (eager, CameraGranted 1), (eager, Toggle), (eager, Toggle)]) = Pending \<and>
   streamRef (gesture_run (gesture_mount False eager)
     [(eager, Toggle), (eager, CameraGranted 1), (eager, Toggle), (eager, Toggle)]) = Some 1 \<and>
   enabled (gesture_run (gesture_mount False eager)
     [(eager, Toggle), (eager, CameraGranted 1), (eager, Toggle), (eager, Toggle)])"
proof -
  have "gesture_run (gesture_mount False eager)
     [(eager, Toggle), (eager, CameraGranted 1), (eager, Toggle), (eager, Toggle)] =
     \<lparr>enabled = True, cameraPermission = Pending, detectedGesture = None,
      gestureConfidence = 0, videoRef = False, canvasRef = False, streamRef = Some 1,
      animationFrameRef = None, frames = [], next_frame = 0, camera_requests = [True],
      reported = [], clear_timeouts = 0\<rparr>"
    by (simp add: gesture_mount_def toggle_effect_def attach_refs_def stopGestureDetection_def
        cancel_frame_def render_def startCamera_def camera_resolved_def Let_def)
  then show ?thesis
    using gesture_loop_never_starts [of False eager
      "[(eager, Toggle), (eager, CameraGranted 1), (eager, Toggle), (eager, Toggle)]"]
    by simp
qed

end
